theory Spec2Isabelle
  imports Main "HOL-Library.Word"
begin

section \<open>Integers, release phases and the Version value\<close>

text \<open>
  Go's \<open>int\<close> is a 64-bit two's-complement integer on the platforms the repository is
  built for; \<open>+\<close> on it wraps around and \<open><\<close> is the signed order.
  \<open>releasePhase\<close> is declared \<open>type releasePhase int\<close>, so it is an integer as
  well: the zero value \<open>Version{}\<close> holds the phase 0, which is none of the six named
  constants.
\<close>

type_synonym go_int = "64 word"

type_synonym releasePhase = "64 word"

definition alpha :: releasePhase where
  "alpha = 1"

definition beta :: releasePhase where
  "beta = 2"

definition rc :: releasePhase where
  "rc = 3"

definition cloudonly :: releasePhase where
  "cloudonly = 4"

definition stable :: releasePhase where
  "stable = 5"

definition adhoc :: releasePhase where
  "adhoc = 6"

record Version =
  year :: go_int
  ordinal :: go_int
  patch :: go_int
  phase :: releasePhase
  phaseOrdinal :: go_int
  phaseSubOrdinal :: go_int
  customOrdinal :: go_int
  adhocLabel :: string
  raw :: string

text \<open>The zero value \<open>Version{}\<close>: every integer 0, every string empty.\<close>

definition Version_zero :: Version where
  "Version_zero = \<lparr>year = 0, ordinal = 0, patch = 0, phase = 0, phaseOrdinal = 0,
     phaseSubOrdinal = 0, customOrdinal = 0, adhocLabel = [], raw = []\<rparr>"

section \<open>Comparison\<close>

text \<open>
  \<open>cmp.Compare\<close> of the standard library on integers: \<open>-1\<close> if \<open>x < y\<close>, \<open>+1\<close> if
  \<open>x > y\<close>, else \<open>0\<close> (the order is the signed one).
\<close>

text \<open>A character of a Go string is a byte, read as a number from 0 to 255.\<close>

definition byte :: "char \<Rightarrow> int" where
  "byte c = of_char c"

definition cmp_int :: "go_int \<Rightarrow> go_int \<Rightarrow> int" where
  "cmp_int x y = (if x <s y then - 1 else if y <s x then 1 else 0)"

text \<open>
  \<open>cmp.Compare\<close> on strings: Go compares strings byte by byte, a proper prefix being
  smaller.
\<close>

fun cmp_string :: "string \<Rightarrow> string \<Rightarrow> int" where
  "cmp_string [] [] = 0"
| "cmp_string [] (y # ys) = - 1"
| "cmp_string (x # xs) [] = 1"
| "cmp_string (x # xs) (y # ys) =
     (if byte x < byte y then - 1
      else if byte y < byte x then 1
      else cmp_string xs ys)"

text \<open>
  \<open>Version.Compare\<close>: the fields in the reference order, the first difference decides.
  The field \<open>raw\<close> is not compared.
\<close>

definition Compare :: "Version \<Rightarrow> Version \<Rightarrow> int" where
  "Compare v w =
     (let rslt = cmp_int (year v) (year w) in
      if rslt \<noteq> 0 then rslt else
      let rslt = cmp_int (ordinal v) (ordinal w) in
      if rslt \<noteq> 0 then rslt else
      let rslt = cmp_int (patch v) (patch w) in
      if rslt \<noteq> 0 then rslt else
      let rslt = cmp_int (phase v) (phase w) in
      if rslt \<noteq> 0 then rslt else
      let rslt = cmp_int (phaseOrdinal v) (phaseOrdinal w) in
      if rslt \<noteq> 0 then rslt else
      let rslt = cmp_int (phaseSubOrdinal v) (phaseSubOrdinal w) in
      if rslt \<noteq> 0 then rslt else
      let rslt = cmp_int (customOrdinal v) (customOrdinal w) in
      if rslt \<noteq> 0 then rslt else
      let rslt = cmp_string (adhocLabel v) (adhocLabel w) in
      if rslt \<noteq> 0 then rslt else
      0)"

definition Equals :: "Version \<Rightarrow> Version \<Rightarrow> bool" where
  "Equals v w = (Compare v w = 0)"

definition LessThan :: "Version \<Rightarrow> Version \<Rightarrow> bool" where
  "LessThan v w = (Compare v w < 0)"

definition Empty :: "Version \<Rightarrow> bool" where
  "Empty v = Equals v Version_zero"

definition AtLeast :: "Version \<Rightarrow> Version \<Rightarrow> bool" where
  "AtLeast v w = (Compare v w \<ge> 0)"

definition IsPrerelease :: "Version \<Rightarrow> bool" where
  "IsPrerelease v = (phase v <s cloudonly \<and> \<not> Empty v)"


section \<open>The regular expressions of the standard library\<close>

text \<open>
  The fragment of Go's \<open>regexp\<close> syntax the repository's patterns are written in.
  A Go string is a sequence of bytes; the matcher walks it one UTF-8 encoded rune at a
  time, and a byte that starts no valid encoding counts as one rune of width 1.
\<close>

definition cont_byte :: "int \<Rightarrow> int \<Rightarrow> char \<Rightarrow> bool" where
  "cont_byte lo hi c = (lo \<le> byte c \<and> byte c \<le> hi)"

text \<open>
  The width \<open>utf8.DecodeRuneInString\<close> reports for the first rune of a non-empty string:
  the length of a well-formed encoding, else 1.
\<close>

definition rune_size :: "int \<Rightarrow> nat \<times> int \<times> int" where
  "rune_size b =
     (if 194 \<le> b \<and> b \<le> 223 then (2, 128, 191)
      else if b = 224 then (3, 160, 191)
      else if 225 \<le> b \<and> b \<le> 236 then (3, 128, 191)
      else if b = 237 then (3, 128, 159)
      else if 238 \<le> b \<and> b \<le> 239 then (3, 128, 191)
      else if b = 240 then (4, 144, 191)
      else if 241 \<le> b \<and> b \<le> 243 then (4, 128, 191)
      else if b = 244 then (4, 128, 143)
      else (1, 0, 0))"

fun rune_width :: "string \<Rightarrow> nat" where
  "rune_width [] = 0"
| "rune_width (s0 # s) =
     (case rune_size (byte s0) of (sz, lo, hi) \<Rightarrow>
        if sz = 1 then 1
        else if length s + 1 < sz then 1
        else if \<not> cont_byte lo hi (s ! 0) then 1
        else if sz \<le> 2 then 2
        else if \<not> cont_byte 128 191 (s ! 1) then 1
        else if sz \<le> 3 then 3
        else if \<not> cont_byte 128 191 (s ! 2) then 1
        else 4)"

text \<open>A character class is a list of ranges \<open>a-b\<close>; a single character is \<open>a-a\<close>.\<close>

datatype cset = Rng char char

fun in_rng :: "char \<Rightarrow> cset \<Rightarrow> bool" where
  "in_rng c (Rng a b) = (byte a \<le> byte c \<and> byte c \<le> byte b)"

definition in_cset :: "char \<Rightarrow> cset list \<Rightarrow> bool" where
  "in_cset c cs = list_ex (in_rng c) cs"

datatype re =
    Eps
  | Lit string
  | Cls "cset list"
  | NCls "cset list"
  | Dot
  | Eol
  | Seq re re
  | Alt re re
  | Opt re
  | Star re
  | Grp string re

text \<open>The text of the capture groups that took part in a match, by name.\<close>

type_synonym caps = "(string \<times> string) list"

text \<open>
  \<open>run r s c\<close> lists, in the matcher's order of preference (leftmost-first: the left
  alternative before the right one, one more repetition before stopping), every way
  \<open>r\<close> matches a prefix of \<open>s\<close>: what is left of \<open>s\<close>, and the captures.
  The classes of the patterns hold ASCII ranges only, so one rune is in a class iff
  it is one byte in a range; a rune is outside a negated class, or other than a newline,
  iff its first byte is. A repetition whose body matched the empty string stops.
\<close>

function run :: "re \<Rightarrow> string \<Rightarrow> caps \<Rightarrow> (string \<times> caps) list" where
  "run Eps s c = [(s, c)]"
| "run (Lit l) s c = (if take (length l) s = l then [(drop (length l) s, c)] else [])"
| "run (Cls cs) s c =
     (case s of [] \<Rightarrow> [] | x # xs \<Rightarrow> if in_cset x cs then [(xs, c)] else [])"
| "run (NCls cs) s c =
     (case s of [] \<Rightarrow> []
      | x # xs \<Rightarrow> if in_cset x cs then [] else [(drop (rune_width s) s, c)])"
| "run Dot s c =
     (case s of [] \<Rightarrow> []
      | x # xs \<Rightarrow> if x = CHR 0x0A then [] else [(drop (rune_width s) s, c)])"
| "run Eol s c = (if s = [] then [(s, c)] else [])"
| "run (Seq r1 r2) s c = concat (map (\<lambda>p. run r2 (fst p) (snd p)) (run r1 s c))"
| "run (Alt r1 r2) s c = run r1 s c @ run r2 s c"
| "run (Opt r) s c = run r s c @ [(s, c)]"
| "run (Star r) s c =
     concat (map (\<lambda>p. if length (fst p) < length s then run (Star r) (fst p) (snd p) else [])
                 (run r s c))
     @ [(s, c)]"
| "run (Grp n r) s c =
     map (\<lambda>p. (fst p, (n, take (length s - length (fst p)) s) # snd p)) (run r s c)"
  by pat_completeness auto
termination
  by (relation "measures [\<lambda>(r, s, c). size r, \<lambda>(r, s, c). length s]") auto

text \<open>\<open>r+\<close> is \<open>rr*\<close>.\<close>

definition Plus :: "re \<Rightarrow> re" where
  "Plus r = Seq r (Star r)"

fun seq :: "re list \<Rightarrow> re" where
  "seq [] = Eps"
| "seq [r] = r"
| "seq (r # rs) = Seq r (seq rs)"

text \<open>
  Every pattern of \<open>Parse\<close> and \<open>ParseMajorVersion\<close> starts with \<open>^\<close>, so a match
  begins at offset 0 or nowhere; the patterns below are written without the \<open>^\<close>.
  \<open>FindStringSubmatch\<close> gives the captures of the preferred match, \<open>MatchString\<close>
  says whether there is one.
\<close>

definition FindStringSubmatch :: "re \<Rightarrow> string \<Rightarrow> caps option" where
  "FindStringSubmatch pat str = (case run pat str [] of [] \<Rightarrow> None | p # _ \<Rightarrow> Some (snd p))"

definition MatchString :: "re \<Rightarrow> string \<Rightarrow> bool" where
  "MatchString pat str = (run pat str [] \<noteq> [])"

section \<open>strconv\<close>

definition is_digit :: "char \<Rightarrow> bool" where
  "is_digit c = (48 \<le> byte c \<and> byte c \<le> 57)"

datatype numres = SyntaxErr | RangeErr | Num int

text \<open>
  The loop of \<open>strconv.ParseUint\<close> in base 10 with 64 bits: a byte that is no digit is a
  syntax error, a value past \<open>2^64 - 1\<close> (\<open>maxUint64\<close>) a range error; whichever comes first.
\<close>

definition maxUint64 :: int where
  "maxUint64 = 18446744073709551615"

definition maxInt64 :: int where
  "maxInt64 = 9223372036854775807"

fun ParseUint_loop :: "int \<Rightarrow> string \<Rightarrow> numres" where
  "ParseUint_loop n [] = Num n"
| "ParseUint_loop n (c # cs) =
     (if \<not> is_digit c then SyntaxErr
      else if n \<ge> maxUint64 div 10 + 1 then RangeErr
      else if n * 10 + (byte c - 48) > maxUint64 then RangeErr
      else ParseUint_loop (n * 10 + (byte c - 48)) cs)"

definition ParseUint :: "string \<Rightarrow> numres" where
  "ParseUint s = (if s = [] then SyntaxErr else ParseUint_loop 0 s)"

text \<open>
  \<open>strconv.Atoi\<close>: an optional sign and decimal digits. The result is the pair Go
  returns, the value and whether there was an error: 0 on a syntax error, the nearest
  representable value on a range error.
\<close>

definition Atoi :: "string \<Rightarrow> go_int \<times> bool" where
  "Atoi s =
     (let neg = (s \<noteq> [] \<and> hd s = CHR ''-'');
          s' = (if s \<noteq> [] \<and> (hd s = CHR ''+'' \<or> hd s = CHR ''-'') then tl s else s)
      in case ParseUint s' of
           SyntaxErr \<Rightarrow> (0, True)
         | RangeErr \<Rightarrow> (if neg then (- of_int maxInt64 - 1, True) else (of_int maxInt64, True))
         | Num un \<Rightarrow>
             if \<not> neg \<and> un \<ge> maxInt64 + 1 then (of_int maxInt64, True)
             else if neg \<and> un > maxInt64 + 1 then (- of_int maxInt64 - 1, True)
             else if neg then (- of_int un, False)
             else (of_int un, False))"

section \<open>Parse\<close>

datatype error =
    InvalidVersionString string
  | UnknownPhase releasePhase
  | NotStable string
  | NotPrerelease
  | OnlyUnmodified
  | NonNilRequired
  | CannotConvert
  | NotMajorVersion string

definition digit19 :: re where
  "digit19 = Cls [Rng (CHR ''1'') (CHR ''9'')]"

definition digit09 :: re where
  "digit09 = Cls [Rng (CHR ''0'') (CHR ''9'')]"

text \<open>\<open>[1-9][0-9]*\<close> and \<open>(?:[1-9][0-9]*|0)\<close>.\<close>

definition posnum :: re where
  "posnum = Seq digit19 (Star digit09)"

definition num0 :: re where
  "num0 = Alt posnum (Lit ''0'')"

text \<open>\<open>v(?P<year>[1-9][0-9]*)\.(?P<ordinal>[1-9][0-9]*)\<close>, the start of every pattern.\<close>

definition vXY :: "re list" where
  "vXY = [Lit ''v'', Grp ''year'' posnum, Lit ''.'', Grp ''ordinal'' posnum]"

text \<open>\<open>\.(?P<patch>(?:[1-9][0-9]*|0))\<close>.\<close>

definition dotZ :: "re list" where
  "dotZ = [Lit ''.'', Grp ''patch'' num0]"

text \<open>\<open>(?P<phase>alpha|beta|rc|cloudonly)\<close>.\<close>

definition phase_group :: re where
  "phase_group =
     Grp ''phase'' (Alt (Lit ''alpha'') (Alt (Lit ''beta'') (Alt (Lit ''rc'') (Lit ''cloudonly''))))"

text \<open>\<open>-g[a-f0-9]+\<close> and \<open>(?:-fips)?\<close>.\<close>

definition git_sha :: "re list" where
  "git_sha = [Lit ''-g'', Plus (Cls [Rng (CHR ''a'') (CHR ''f''), Rng (CHR ''0'') (CHR ''9'')])]"

definition fips :: re where
  "fips = Opt (Lit ''-fips'')"

text \<open>The nine patterns of \<open>Parse\<close>, in the order of the source.\<close>

definition pattern1 :: re where
  "pattern1 = seq (vXY @ dotZ @ [fips, Eol])"

definition pattern2 :: re where
  "pattern2 = seq (vXY @ dotZ @
     [Lit ''-'', phase_group, Lit ''.'', Grp ''phaseOrdinal'' (Plus digit09), fips, Eol])"

definition pattern3 :: re where
  "pattern3 = seq (vXY @ dotZ @
     [Lit ''-'', Grp ''customOrdinal'' num0] @ git_sha @ [fips, Eol])"

definition pattern4 :: re where
  "pattern4 = seq (vXY @ dotZ @
     [Lit ''-'', phase_group, Dot, Grp ''phaseOrdinal'' (Plus digit09),
      Lit ''-'', Grp ''customOrdinal'' num0] @ git_sha @ [fips, Eol])"

definition pattern5 :: re where
  "pattern5 = seq (vXY @ dotZ @
     [Lit ''-'', phase_group, Dot, Grp ''phaseOrdinal'' (Plus digit09),
      Lit ''-cloudonly'', Alt (Lit ''-rc'') (Lit ''.''), Grp ''phaseSubOrdinal'' num0, Eol])"

definition pattern6 :: re where
  "pattern6 = seq (vXY @ dotZ @
     [Lit ''-'', Grp ''phase'' (Lit ''cloudonly''), Lit ''-rc'',
      Grp ''phaseOrdinal'' (Plus digit09), Eol])"

definition pattern7 :: re where
  "pattern7 = seq (vXY @ dotZ @
     [Lit ''-'', Grp ''phase'' (Lit ''cloudonly''),
      Opt (Grp ''phaseOrdinal'' (Plus digit09)), Eol])"

definition pattern8 :: re where
  "pattern8 = seq (vXY @ dotZ @
     [Lit ''-'',
      Grp ''adhocLabel'' (Plus (Cls [Rng (CHR ''-'') (CHR ''-''), Rng (CHR ''a'') (CHR ''z''),
         Rng (CHR ''A'') (CHR ''Z''), Rng (CHR ''0'') (CHR ''9''), Rng (CHR ''.'') (CHR ''.''),
         Rng (CHR ''+'') (CHR ''+'')])),
      Eol])"

definition pattern9 :: re where
  "pattern9 = seq
     ([Lit ''sha256:'', Grp ''adhocLabel'' (Plus (NCls [Rng (CHR '':'') (CHR '':'')])),
       Lit '':latest-''] @ vXY @ [Lit ''-build'', Eol])"

definition patterns :: "re list" where
  "patterns = [pattern1, pattern2, pattern3, pattern4, pattern5, pattern6, pattern7,
     pattern8, pattern9]"

definition preReleasePhase :: "string \<rightharpoonup> releasePhase" where
  "preReleasePhase = map_of
     [(''alpha'', alpha), (''beta'', beta), (''rc'', rc), (''cloudonly'', cloudonly)]"

text \<open>
  The closure \<open>submatch\<close>: the text of the named group, the empty string when the
  pattern has no such group or the group took no part in the match.
\<close>

definition submatch :: "caps \<Rightarrow> string \<Rightarrow> string" where
  "submatch matches name = (case map_of matches name of None \<Rightarrow> [] | Some t \<Rightarrow> t)"

text \<open>
  The body of the loop of \<open>Parse\<close> once a pattern has matched, in the order of the
  source: the fields every pattern has (\<open>fill_major\<close>), the phase with its ordinals
  (\<open>fill_phase\<close>), the build ordinal and the label (\<open>fill_build\<close>). On an unknown phase
  name the source returns \<open>Version{}\<close> and an error whose message holds the failed
  lookup's result, the phase 0. The errors of \<open>Atoi\<close> are dropped, as in the source.
\<close>

definition fill_major :: "caps \<Rightarrow> Version \<Rightarrow> Version" where
  "fill_major matches v =
     (let v = v\<lparr>year := fst (Atoi (submatch matches ''year''))\<rparr>;
          v = v\<lparr>ordinal := fst (Atoi (submatch matches ''ordinal''))\<rparr>;
          patch_s = submatch matches ''patch''
      in if patch_s \<noteq> [] then v\<lparr>patch := fst (Atoi patch_s)\<rparr> else v)"

definition fill_phase :: "caps \<Rightarrow> Version \<Rightarrow> error + Version" where
  "fill_phase matches v =
     (let phase_s = submatch matches ''phase'' in
      if phase_s \<noteq> [] then
        (case preReleasePhase phase_s of
           None \<Rightarrow> Inl (UnknownPhase 0)
         | Some phaseName \<Rightarrow>
             (let v = v\<lparr>phase := phaseName\<rparr>;
                  ord = submatch matches ''phaseOrdinal'';
                  v = (if ord \<noteq> [] then v\<lparr>phaseOrdinal := fst (Atoi ord)\<rparr> else v);
                  subOrd = submatch matches ''phaseSubOrdinal'';
                  v = (if subOrd \<noteq> [] then v\<lparr>phaseSubOrdinal := fst (Atoi subOrd)\<rparr> else v)
              in Inr v))
      else Inr v)"

definition fill_build :: "caps \<Rightarrow> Version \<Rightarrow> Version" where
  "fill_build matches v =
     (let ord = submatch matches ''customOrdinal'';
          v = (if ord \<noteq> [] then v\<lparr>customOrdinal := fst (Atoi ord)\<rparr> else v);
          label = submatch matches ''adhocLabel''
      in if label \<noteq> [] then v\<lparr>phase := adhoc, adhocLabel := label\<rparr> else v)"

definition fill :: "caps \<Rightarrow> Version \<Rightarrow> Version \<times> error option" where
  "fill matches v =
     (case fill_phase matches (fill_major matches v) of
        Inl e \<Rightarrow> (Version_zero, Some e)
      | Inr v \<Rightarrow> (fill_build matches v, None))"

text \<open>
  The loop over the patterns: the first that matches decides; when none does, the
  result is \<open>Version{}\<close> and the error naming the string.
\<close>

fun parse_loop :: "re list \<Rightarrow> string \<Rightarrow> Version \<Rightarrow> Version \<times> error option" where
  "parse_loop [] str v = (Version_zero, Some (InvalidVersionString str))"
| "parse_loop (pat # pats) str v =
     (if MatchString pat str then
        (case FindStringSubmatch pat str of
           Some matches \<Rightarrow> fill matches v
         | None \<Rightarrow> parse_loop pats str v)
      else parse_loop pats str v)"

definition Parse :: "string \<Rightarrow> Version \<times> error option" where
  "Parse str = parse_loop patterns str (Version_zero\<lparr>raw := str, phase := stable\<rparr>)"

section \<open>Format and String\<close>

text \<open>
  \<open>strconv.Itoa\<close>: the decimal digits of the signed value, after a \<open>-\<close> when it is
  negative.
\<close>

function dec :: "int \<Rightarrow> string" where
  "dec n = (if n < 10 then [char_of (48 + n)] else dec (n div 10) @ [char_of (48 + n mod 10)])"
  by pat_completeness auto
termination
  by (relation "measure nat") auto

definition Itoa :: "go_int \<Rightarrow> string" where
  "Itoa i = (if sint i < 0 then CHR ''-'' # dec (- sint i) else dec (sint i))"

lemma rune_width_pos: "s \<noteq> [] \<Longrightarrow> 0 < rune_width s"
  by (cases s) (auto split: prod.splits)

text \<open>
  \<open>FindAllString(s, -1)\<close> for a pattern that matches no empty string: the successive
  matches, each the leftmost one after the match before it.
\<close>

function FindAllString :: "re \<Rightarrow> string \<Rightarrow> string list" where
  "FindAllString pat s =
     (if s = [] then []
      else case run pat s [] of
             [] \<Rightarrow> FindAllString pat (drop (rune_width s) s)
           | p # _ \<Rightarrow>
               if length (fst p) < length s
               then take (length s - length (fst p)) s # FindAllString pat (fst p)
               else FindAllString pat (drop (rune_width s) s))"
  by pat_completeness auto
termination
  by (relation "measure (\<lambda>(pat, s). length s)") (auto simp: rune_width_pos)

text \<open>
  \<open>strings.ReplaceAll\<close>: the occurrences of \<open>old\<close> that do not overlap, from the left,
  each replaced by \<open>new\<close>; an empty \<open>old\<close> matches before every rune and at the end.
\<close>

function replace_runes :: "string \<Rightarrow> string \<Rightarrow> string" where
  "replace_runes s new =
     (if s = [] then []
      else take (rune_width s) s @ new @ replace_runes (drop (rune_width s) s) new)"
  by pat_completeness auto
termination
  by (relation "measure (\<lambda>(s, new). length s)") (auto simp: rune_width_pos)

function replace_loop :: "string \<Rightarrow> string \<Rightarrow> string \<Rightarrow> string" where
  "replace_loop s old new =
     (if s = [] \<or> old = [] then s
      else if take (length old) s = old then new @ replace_loop (drop (length old) s) old new
      else hd s # replace_loop (tl s) old new)"
  by pat_completeness auto
termination
  by (relation "measure (\<lambda>(s, old, new). length s)") auto

definition ReplaceAll :: "string \<Rightarrow> string \<Rightarrow> string \<Rightarrow> string" where
  "ReplaceAll s old new = (if old = [] then new @ replace_runes s new else replace_loop s old new)"

datatype panic = UnknownPlaceholders "string list"

text \<open>\<open>%[^%XYZpPosn]\<close>, searched anywhere in the format string.\<close>

definition placeholderRe :: re where
  "placeholderRe = Seq (Lit ''%'')
     (NCls [Rng (CHR ''%'') (CHR ''%''), Rng (CHR ''X'') (CHR ''X''), Rng (CHR ''Y'') (CHR ''Y''),
        Rng (CHR ''Z'') (CHR ''Z''), Rng (CHR ''p'') (CHR ''p''), Rng (CHR ''P'') (CHR ''P''),
        Rng (CHR ''o'') (CHR ''o''), Rng (CHR ''s'') (CHR ''s''), Rng (CHR ''n'') (CHR ''n'')])"

definition phaseName :: "releasePhase \<rightharpoonup> string" where
  "phaseName = map_of
     [(alpha, ''alpha''), (beta, ''beta''), (rc, ''rc''), (cloudonly, ''cloudonly''),
      (adhoc, []), (stable, [])]"

text \<open>
  \<open>Version.Format\<close>: a panic when the format string holds an unknown placeholder, else
  the placeholders replaced one after the other. A phase that is no key of \<open>phaseName\<close>
  reads as the empty string, as a missing key of a Go map does.
\<close>

definition Format :: "Version \<Rightarrow> string \<Rightarrow> panic + string" where
  "Format v formatStr =
     (let placeholders = FindAllString placeholderRe formatStr in
      if length placeholders > 0 then Inl (UnknownPlaceholders placeholders)
      else
        (let formatStr = ReplaceAll formatStr ''%X'' (Itoa (year v));
             formatStr = ReplaceAll formatStr ''%Y'' (Itoa (ordinal v));
             formatStr = ReplaceAll formatStr ''%Z'' (Itoa (patch v));
             formatStr = ReplaceAll formatStr ''%p'' (Itoa (phase v));
             formatStr = ReplaceAll formatStr ''%P''
               (case phaseName (phase v) of None \<Rightarrow> [] | Some n \<Rightarrow> n);
             formatStr = ReplaceAll formatStr ''%o'' (Itoa (phaseOrdinal v));
             formatStr = ReplaceAll formatStr ''%s'' (Itoa (phaseSubOrdinal v));
             formatStr = ReplaceAll formatStr ''%n'' (Itoa (customOrdinal v));
             formatStr = ReplaceAll formatStr ''%%'' ''%''
         in Inr formatStr))"

text \<open>
  Modelled from the spec: \<open>redact.StringWithoutMarkers\<close> and \<open>redact.SafePrinter.Print\<close>
  belong to the package \<open>github.com/cockroachdb/redact\<close>, which is not among the sources.
  \<open>SafeFormat\<close> prints the one value \<open>v.raw\<close>; following the spec (``String() returns the
  original raw input verbatim'') and the comment of \<open>String\<close>, printing a string and
  stripping the redaction markers gives the string back.
\<close>

definition StringWithoutMarkers :: "string \<Rightarrow> string" where
  "StringWithoutMarkers printed = printed"

definition SafeFormat :: "Version \<Rightarrow> string" where
  "SafeFormat v = raw v"

definition String :: "Version \<Rightarrow> string" where
  "String v = StringWithoutMarkers (SafeFormat v)"

section \<open>IncPatch and IncPreRelease\<close>

text \<open>
  Both build a new value from the fields of the receiver, which is passed by value.
  A panic of \<open>Format\<close> would pass through them; the result is the pair Go returns.
\<close>

definition IncPatch :: "Version \<Rightarrow> panic + Version \<times> error option" where
  "IncPatch v =
     (if phase v \<noteq> stable then Inr (Version_zero, Some (NotStable (String v)))
      else
        (let nextVersion = Version_zero\<lparr>phase := phase v, year := year v,
               ordinal := ordinal v, patch := patch v + 1\<rparr>
         in case Format nextVersion ''v%X.%Y.%Z'' of
              Inl p \<Rightarrow> Inl p
            | Inr s \<Rightarrow> Inr (nextVersion\<lparr>raw := s\<rparr>, None)))"

definition IncPreRelease :: "Version \<Rightarrow> panic + Version \<times> error option" where
  "IncPreRelease v =
     (if \<not> IsPrerelease v then Inr (Version_zero, Some NotPrerelease)
      else if 0 <s phaseSubOrdinal v \<or> 0 <s customOrdinal v
      then Inr (Version_zero, Some OnlyUnmodified)
      else
        (let nextVersion = Version_zero\<lparr>raw := raw v, phase := phase v, year := year v,
               ordinal := ordinal v, patch := patch v, phaseOrdinal := phaseOrdinal v + 1\<rparr>
         in case Format nextVersion ''v%X.%Y.%Z-%P.%o'' of
              Inl p \<Rightarrow> Inl p
            | Inr s \<Rightarrow> Inr (nextVersion\<lparr>raw := s\<rparr>, None)))"

section \<open>MajorVersion\<close>

record MajorVersion =
  Year :: go_int
  Ordinal :: go_int

definition MajorVersion_zero :: MajorVersion where
  "MajorVersion_zero = \<lparr>Year = 0, Ordinal = 0\<rparr>"

text \<open>
  \<open>^v(0|[1-9][0-9]*)\.([1-9][0-9]*)$\<close>. Its two groups have no name; they are named
  here by their index, as \<open>groups[1]\<close> and \<open>groups[2]\<close> read them.
\<close>

definition majorVersionRE :: re where
  "majorVersionRE = seq
     [Lit ''v'', Grp ''1'' (Alt (Lit ''0'') posnum), Lit ''.'', Grp ''2'' posnum, Eol]"

definition ParseMajorVersion :: "string \<Rightarrow> MajorVersion \<times> error option" where
  "ParseMajorVersion versionStr =
     (if \<not> MatchString majorVersionRE versionStr
      then (MajorVersion_zero, Some (NotMajorVersion versionStr))
      else
        (case FindStringSubmatch majorVersionRE versionStr of
           None \<Rightarrow> (MajorVersion_zero, Some (NotMajorVersion versionStr))
         | Some groups \<Rightarrow>
             (let y = fst (Atoi (submatch groups ''1''));
                  ord = fst (Atoi (submatch groups ''2''))
              in (\<lparr>Year = y, Ordinal = ord\<rparr>, None))))"

section \<open>The database adapters\<close>

text \<open>
  A \<open>driver.Value\<close> handed to \<open>Scan\<close>: nil, a string, or a value of another type.
  \<open>Scan\<close> has a pointer receiver; the model returns the receiver after the call and
  the error.
\<close>

datatype driver_value = Nil | Str string | Int64 go_int | Bool bool | Bytes string

definition Version_Scan :: "Version \<Rightarrow> driver_value \<Rightarrow> Version \<times> error option" where
  "Version_Scan v val =
     (case val of
        Nil \<Rightarrow> (v, Some NonNilRequired)
      | Str str \<Rightarrow>
          if str = [] then (Version_zero, None)
          else (case Parse str of
                  (parsed, Some err) \<Rightarrow> (v, Some err)
                | (parsed, None) \<Rightarrow> (parsed, None))
      | _ \<Rightarrow> (v, Some CannotConvert))"

record NullVersion =
  Valid :: bool
  Version :: Version

definition NewNullVersion :: "Version \<Rightarrow> NullVersion" where
  "NewNullVersion v = \<lparr>Valid = \<not> Empty v, Version = v\<rparr>"

definition NullVersion_Scan :: "NullVersion \<Rightarrow> driver_value \<Rightarrow> NullVersion \<times> error option" where
  "NullVersion_Scan n val =
     (if val = Nil then (\<lparr>Valid = False, Version = Version_zero\<rparr>, None)
      else
        (case Version_Scan (Version n) val of
           (v, Some err) \<Rightarrow> (n\<lparr>Version := v\<rparr>, Some err)
         | (v, None) \<Rightarrow> (n\<lparr>Version := v, Valid := True\<rparr>, None)))"

section \<open>Checks on the patterns\<close>

text \<open>
  Three checks read off a pattern what its capture groups can hold; they are used in
  the proofs only. \<open>grp_all P r\<close> says that every group of \<open>r\<close>, with its name and
  body, satisfies \<open>P\<close>. \<open>phase_names_only\<close> holds of an alternation of literals that are
  all keys of \<open>preReleasePhase\<close>; \<open>starts_digit\<close> holds of a body whose matches all
  begin with a decimal digit; \<open>numeric_closed\<close> asks it of the groups that \<open>Atoi\<close> reads.
\<close>

fun grp_all :: "(string \<Rightarrow> re \<Rightarrow> bool) \<Rightarrow> re \<Rightarrow> bool" where
  "grp_all P (Grp n r) = (P n r \<and> grp_all P r)"
| "grp_all P (Seq a b) = (grp_all P a \<and> grp_all P b)"
| "grp_all P (Alt a b) = (grp_all P a \<and> grp_all P b)"
| "grp_all P (Opt r) = grp_all P r"
| "grp_all P (Star r) = grp_all P r"
| "grp_all P r = True"

fun phase_names_only :: "re \<Rightarrow> bool" where
  "phase_names_only (Lit l) = (preReleasePhase l \<noteq> None)"
| "phase_names_only (Alt a b) = (phase_names_only a \<and> phase_names_only b)"
| "phase_names_only r = False"

fun in_digits :: "cset \<Rightarrow> bool" where
  "in_digits (Rng a b) = (48 \<le> byte a \<and> byte b \<le> 57)"

fun starts_digit :: "re \<Rightarrow> bool" where
  "starts_digit (Cls cs) = list_all in_digits cs"
| "starts_digit (Lit l) = (l \<noteq> [] \<and> is_digit (hd l))"
| "starts_digit (Seq a b) = starts_digit a"
| "starts_digit (Alt a b) = (starts_digit a \<and> starts_digit b)"
| "starts_digit r = False"

definition phase_closed :: "re \<Rightarrow> bool" where
  "phase_closed r = grp_all (\<lambda>n b. n = ''phase'' \<longrightarrow> phase_names_only b) r"

definition numeric_groups :: "string list" where
  "numeric_groups = [''year'', ''ordinal'', ''patch'', ''phaseOrdinal'', ''phaseSubOrdinal'',
     ''customOrdinal'']"

definition numeric_closed :: "re \<Rightarrow> bool" where
  "numeric_closed r = grp_all (\<lambda>n b. n \<in> set numeric_groups \<longrightarrow> starts_digit b) r"

section \<open>The versions the package hands out\<close>

text \<open>
  The fields of \<open>Version\<close> are unexported: a caller holds the zero value, a result of
  \<open>Parse\<close> (\<open>Scan\<close> and \<open>UnmarshalJSON\<close> store such results), or a result of
  \<open>IncPatch\<close> or \<open>IncPreRelease\<close> on such a version.
\<close>

inductive reachable :: "Version \<Rightarrow> bool" where
  zero: "reachable Version_zero"
| parsed: "reachable (fst (Parse s))"
| inc_patch: "reachable v \<Longrightarrow> IncPatch v = Inr (w, e) \<Longrightarrow> reachable w"
| inc_pre: "reachable v \<Longrightarrow> IncPreRelease v = Inr (w, e) \<Longrightarrow> reachable w"

text \<open>
  What all such versions satisfy, and what \<open>IncPreRelease\<close> relies on: the two ordinals
  it does not copy are not negative, and a label comes with the phase \<open>adhoc\<close>.
\<close>

definition valid :: "Version \<Rightarrow> bool" where
  "valid v = (0 \<le>s phaseSubOrdinal v \<and> 0 \<le>s customOrdinal v \<and>
     (adhocLabel v \<noteq> [] \<longrightarrow> phase v = adhoc))"

text \<open>The text \<open>Format\<close> puts for \<open>%P\<close>.\<close>

definition phase_text :: "releasePhase \<Rightarrow> string" where
  "phase_text p = (case phaseName p of None \<Rightarrow> [] | Some n \<Rightarrow> n)"

text \<open>
  The equations of the functions defined by general recursion unfold without end; they
  are applied by hand where needed.
\<close>

declare dec.simps [simp del] FindAllString.simps [simp del] replace_runes.simps [simp del]
  replace_loop.simps [simp del] run.simps(10) [simp del]

section \<open>Properties of the comparison\<close>

lemma cmp_int_refl: "cmp_int x x = 0" by (simp add: cmp_int_def)
lemma cmp_int_anti: "cmp_int x y = - cmp_int y x"
  by (auto simp: cmp_int_def word_sless_alt)
lemma cmp_int_eq0: "cmp_int x y = 0 \<longleftrightarrow> x = y"
  by (auto simp: cmp_int_def word_sless_alt intro: signed_word_eqI) 
lemma cmp_int_lt0: "cmp_int x y < 0 \<longleftrightarrow> sint x < sint y"
  by (auto simp: cmp_int_def word_sless_alt)

lemma cmp_string_refl: "cmp_string xs xs = 0"
  by (induction xs) auto

lemma cmp_string_anti: "cmp_string xs ys = - cmp_string ys xs"
  by (induction xs ys rule: cmp_string.induct) auto

lemma cmp_string_eq0: "cmp_string xs ys = 0 \<longleftrightarrow> xs = ys"
  by (induction xs ys rule: cmp_string.induct) (auto simp: byte_def)

lemma cmp_string_trans:
  "cmp_string xs ys \<le> 0 \<Longrightarrow> cmp_string ys zs \<le> 0 \<Longrightarrow> cmp_string xs zs \<le> 0"
proof (induction xs ys arbitrary: zs rule: cmp_string.induct)
  case 1
  then show ?case by simp
next
  case (2 y ys)
  then show ?case by (cases zs) simp_all
next
  case (3 x xs)
  then show ?case by simp
next
  case (4 x xs y ys)
  show ?case
  proof (cases zs)
    case Nil
    with "4.prems" show ?thesis by simp
  next
    case (Cons z zs')
    from "4.prems"(1) have xy: "\<not> byte y < byte x"
      by (simp split: if_splits)
    from "4.prems"(2) Cons have yz: "\<not> byte z < byte y"
      by (simp split: if_splits)
    show ?thesis
    proof (cases "byte x < byte z")
      case True
      with Cons show ?thesis by simp
    next
      case False
      with xy yz have e1: "byte x = byte y" and e2: "byte y = byte z"
        by linarith+
      from "4.prems"(1) e1 have r1: "cmp_string xs ys \<le> 0" by simp
      from "4.prems"(2) Cons e2 have r2: "cmp_string ys zs' \<le> 0" by simp
      from e1 have "cmp_string xs zs' \<le> 0"
        using "4.IH" [OF _ _ r1 r2] by simp
      with False e1 e2 Cons show ?thesis by simp
    qed
  qed
qed

lemma lex_le0: "((if (a::int) \<noteq> 0 then a else r) \<le> 0) = (a < 0 \<or> (a = 0 \<and> r \<le> 0))"
  by auto

lemma Compare_le0:
  "Compare v w \<le> 0 \<longleftrightarrow>
    sint (year v) < sint (year w) \<or> year v = year w \<and>
   (sint (ordinal v) < sint (ordinal w) \<or> ordinal v = ordinal w \<and>
   (sint (patch v) < sint (patch w) \<or> patch v = patch w \<and>
   (sint (phase v) < sint (phase w) \<or> phase v = phase w \<and>
   (sint (phaseOrdinal v) < sint (phaseOrdinal w) \<or> phaseOrdinal v = phaseOrdinal w \<and>
   (sint (phaseSubOrdinal v) < sint (phaseSubOrdinal w) \<or> phaseSubOrdinal v = phaseSubOrdinal w \<and>
   (sint (customOrdinal v) < sint (customOrdinal w) \<or> customOrdinal v = customOrdinal w \<and>
    cmp_string (adhocLabel v) (adhocLabel w) \<le> 0))))))"
  unfolding Compare_def Let_def lex_le0 cmp_int_lt0
  by (simp add: cmp_int_eq0 order_le_less)

lemma Compare_trans: "Compare v w \<le> 0 \<Longrightarrow> Compare w u \<le> 0 \<Longrightarrow> Compare v u \<le> 0"
  unfolding Compare_le0
  by (elim disjE conjE) (auto intro: cmp_string_trans)

lemma Compare_refl: "Compare v v = 0"
  by (simp add: Compare_def cmp_int_refl cmp_string_refl)

lemma lex_neg: "(a::int) = - a' \<Longrightarrow> r = - r' \<Longrightarrow>
  (if a \<noteq> 0 then a else r) = - (if a' \<noteq> 0 then a' else r')"
  by simp

lemma Compare_anti: "Compare v w = - Compare w v"
  unfolding Compare_def Let_def
  by (intro lex_neg cmp_int_anti cmp_string_anti) simp

text \<open>
  Claim C2. \<open>Version.Compare\<close> is a total order: comparing a version with itself gives 0,
  swapping the arguments negates the result, and \<open>Compare v w \<le> 0\<close> with
  \<open>Compare w u \<le> 0\<close> gives \<open>Compare v u \<le> 0\<close>, for all versions.
\<close>

theorem Compare_total_order:
  "Compare v v = 0 \<and> Compare v w = - Compare w v \<and>
   (Compare v w \<le> 0 \<and> Compare w u \<le> 0 \<longrightarrow> Compare v u \<le> 0)"
  using Compare_refl Compare_anti Compare_trans by blast

theorem Compare_total_order_witness:
  "Compare (fst (Parse ''v24.1.0-rc.1'')) (fst (Parse ''v24.1.0'')) \<le> 0 \<and>
   Compare (fst (Parse ''v24.1.0'')) (fst (Parse ''v24.1.0-x'')) \<le> 0 \<and>
   Compare (fst (Parse ''v24.1.0-rc.1'')) (fst (Parse ''v24.1.0-x'')) \<le> 0 \<and>
   Compare (fst (Parse ''v24.1.0-rc.1'')) (fst (Parse ''v24.1.0-rc.1'')) = 0 \<and>
   Compare (fst (Parse ''v24.1.0-rc.1'')) (fst (Parse ''v24.1.0'')) =
     - Compare (fst (Parse ''v24.1.0'')) (fst (Parse ''v24.1.0-rc.1''))"
proof -
  have a: "Compare (fst (Parse ''v24.1.0-rc.1'')) (fst (Parse ''v24.1.0'')) \<le> 0"
    by code_simp
  have b: "Compare (fst (Parse ''v24.1.0'')) (fst (Parse ''v24.1.0-x'')) \<le> 0"
    by code_simp
  show ?thesis
    using a b Compare_total_order [of "fst (Parse ''v24.1.0-rc.1'')" "fst (Parse ''v24.1.0'')"
      "fst (Parse ''v24.1.0-x'')"]
    by blast
qed

section \<open>Phase order\<close>

lemma phase_constants_order:
  "alpha <s beta \<and> beta <s rc \<and> rc <s cloudonly \<and> cloudonly <s stable \<and> stable <s adhoc"
  by (simp add: alpha_def beta_def rc_def cloudonly_def stable_def adhoc_def word_sless_alt)

lemma Compare_phase_decides:
  assumes "year v = year w" "ordinal v = ordinal w" "patch v = patch w" "phase v <s phase w"
  shows "Compare v w = - 1"
  using assms by (simp add: Compare_def Let_def cmp_int_def)

text \<open>
  Claim C4. The release phases order as alpha < beta < rc < cloudonly < stable < adhoc
  under \<open>Version.Compare\<close>: the six constants are in that (signed) order, and for two
  versions with the same year, ordinal and patch the smaller phase makes the version
  smaller. The three examples of the spec parse without error and compare as stated.
\<close>

theorem phase_ordering:
  "alpha <s beta \<and> beta <s rc \<and> rc <s cloudonly \<and> cloudonly <s stable \<and> stable <s adhoc \<and>
   (year v = year w \<and> ordinal v = ordinal w \<and> patch v = patch w \<and> phase v <s phase w
      \<longrightarrow> Compare v w < 0) \<and>
   snd (Parse ''v24.1.0-alpha.1'') = None \<and> snd (Parse ''v24.1.0-beta.1'') = None \<and>
   snd (Parse ''v24.1.0-rc.1'') = None \<and> snd (Parse ''v24.1.0'') = None \<and>
   snd (Parse ''v24.1.0-1-gabcdef'') = None \<and>
   Compare (fst (Parse ''v24.1.0-alpha.1'')) (fst (Parse ''v24.1.0-beta.1'')) < 0 \<and>
   Compare (fst (Parse ''v24.1.0-rc.1'')) (fst (Parse ''v24.1.0'')) < 0 \<and>
   Compare (fst (Parse ''v24.1.0'')) (fst (Parse ''v24.1.0-1-gabcdef'')) < 0"
proof -
  have gen: "year v = year w \<and> ordinal v = ordinal w \<and> patch v = patch w \<and> phase v <s phase w
      \<longrightarrow> Compare v w < 0"
    using Compare_phase_decides [of v w] by simp
  have p1: "snd (Parse ''v24.1.0-alpha.1'') = None" by code_simp
  have p2: "snd (Parse ''v24.1.0-beta.1'') = None" by code_simp
  have p3: "snd (Parse ''v24.1.0-rc.1'') = None" by code_simp
  have p4: "snd (Parse ''v24.1.0'') = None" by code_simp
  have p5: "snd (Parse ''v24.1.0-1-gabcdef'') = None" by code_simp
  have c1: "Compare (fst (Parse ''v24.1.0-alpha.1'')) (fst (Parse ''v24.1.0-beta.1'')) < 0"
    by code_simp
  have c2: "Compare (fst (Parse ''v24.1.0-rc.1'')) (fst (Parse ''v24.1.0'')) < 0"
    by code_simp
  have c3: "Compare (fst (Parse ''v24.1.0'')) (fst (Parse ''v24.1.0-1-gabcdef'')) < 0"
    by code_simp
  from phase_constants_order gen p1 p2 p3 p4 p5 c1 c2 c3 show ?thesis by blast
qed

theorem phase_ordering_witness:
  "year (fst (Parse ''v24.1.0-cloudonly.1'')) = year (fst (Parse ''v24.1.0'')) \<and>
   ordinal (fst (Parse ''v24.1.0-cloudonly.1'')) = ordinal (fst (Parse ''v24.1.0'')) \<and>
   patch (fst (Parse ''v24.1.0-cloudonly.1'')) = patch (fst (Parse ''v24.1.0'')) \<and>
   phase (fst (Parse ''v24.1.0-cloudonly.1'')) <s phase (fst (Parse ''v24.1.0'')) \<and>
   Compare (fst (Parse ''v24.1.0-cloudonly.1'')) (fst (Parse ''v24.1.0'')) < 0"
proof -
  have h: "year (fst (Parse ''v24.1.0-cloudonly.1'')) = year (fst (Parse ''v24.1.0'')) \<and>
   ordinal (fst (Parse ''v24.1.0-cloudonly.1'')) = ordinal (fst (Parse ''v24.1.0'')) \<and>
   patch (fst (Parse ''v24.1.0-cloudonly.1'')) = patch (fst (Parse ''v24.1.0'')) \<and>
   phase (fst (Parse ''v24.1.0-cloudonly.1'')) <s phase (fst (Parse ''v24.1.0''))"
    by code_simp
  show ?thesis
    using h phase_ordering [of "fst (Parse ''v24.1.0-cloudonly.1'')" "fst (Parse ''v24.1.0'')"]
    by blast
qed

section \<open>Scan\<close>

text \<open>
  Claim C7. Whatever the receiver held before, \<open>NullVersion.Scan\<close> of nil succeeds and
  leaves \<open>{Valid: false, Version: Version{}}\<close>, \<open>Scan\<close> of the empty string succeeds and
  leaves \<open>{Valid: true, Version: Version{}}\<close>, and the two values differ.
\<close>

theorem NullVersion_Scan_null_vs_empty:
  "NullVersion_Scan n Nil = (\<lparr>Valid = False, Version = Version_zero\<rparr>, None) \<and>
   NullVersion_Scan n (Str []) = (\<lparr>Valid = True, Version = Version_zero\<rparr>, None) \<and>
   fst (NullVersion_Scan n Nil) \<noteq> fst (NullVersion_Scan n (Str []))"
  by (cases n) (simp add: NullVersion_Scan_def Version_Scan_def)

section \<open>Parse: errors and the raw string\<close>

lemma fill_error_zero: "snd (fill m v) \<noteq> None \<Longrightarrow> fst (fill m v) = Version_zero"
  by (simp add: fill_def split: sum.splits)

lemma parse_loop_error_zero:
  "snd (parse_loop ps s v) \<noteq> None \<Longrightarrow> fst (parse_loop ps s v) = Version_zero"
  by (induction ps) (auto simp: fill_error_zero split: option.splits)

text \<open>
  Claim C9. Whenever \<open>Parse\<close> returns an error, the version returned with it is the
  zero value \<open>Version{}\<close>.
\<close>

theorem Parse_error_returns_zero:
  "snd (Parse s) \<noteq> None \<Longrightarrow> fst (Parse s) = Version_zero"
  unfolding Parse_def by (rule parse_loop_error_zero)

theorem Parse_error_returns_zero_witness:
  "snd (Parse ''not-a-version'') \<noteq> None \<and> fst (Parse ''not-a-version'') = Version_zero"
proof -
  have h: "snd (Parse ''not-a-version'') \<noteq> None" by code_simp
  from h Parse_error_returns_zero [OF h] show ?thesis by simp
qed

lemma fill_phase_raw: "fill_phase m v = Inr w \<Longrightarrow> raw w = raw v"
  by (auto simp: fill_phase_def Let_def split: if_splits option.splits)

lemma fill_major_raw: "raw (fill_major m v) = raw v"
  by (simp add: fill_major_def Let_def)

lemma fill_build_raw: "raw (fill_build m v) = raw v"
  by (simp add: fill_build_def Let_def)

lemma fill_raw: "snd (fill m v) = None \<Longrightarrow> raw (fst (fill m v)) = raw v"
  by (auto simp: fill_def fill_major_raw fill_build_raw split: sum.splits dest!: fill_phase_raw)

lemma parse_loop_raw:
  "snd (parse_loop ps s v) = None \<Longrightarrow> raw (fst (parse_loop ps s v)) = raw v"
  by (induction ps) (auto simp: fill_raw split: option.splits)

lemma Parse_raw: "snd (Parse s) = None \<Longrightarrow> raw (fst (Parse s)) = s"
  unfolding Parse_def using parse_loop_raw [of patterns s "Version_zero\<lparr>raw := s, phase := stable\<rparr>"]
  by simp

text \<open>
  Claim C1. For every string \<open>s\<close> that \<open>Parse\<close> accepts, \<open>String()\<close> of the version it
  returns is \<open>s\<close>.
\<close>

theorem Parse_String_roundtrip:
  "snd (Parse s) = None \<Longrightarrow> String (fst (Parse s)) = s"
  by (simp add: String_def StringWithoutMarkers_def SafeFormat_def Parse_raw)

theorem Parse_String_roundtrip_witness:
  "snd (Parse ''v24.1.0-rc.01-fips'') = None \<and> String (fst (Parse ''v24.1.0-rc.01-fips'')) = ''v24.1.0-rc.01-fips''"
proof -
  have h: "snd (Parse ''v24.1.0-rc.01-fips'') = None" by code_simp
  from h Parse_String_roundtrip [OF h] show ?thesis by simp
qed

section \<open>Format on the format strings of the package\<close>

lemma byte_char_of: "0 \<le> k \<Longrightarrow> k < 256 \<Longrightarrow> byte (char_of k) = k"
  by (simp add: byte_def)

lemma dec_digits: "0 \<le> n \<Longrightarrow> list_all is_digit (dec n)"
proof (induction n rule: dec.induct)
  case (1 n)
  show ?case
  proof (cases "n < 10")
    case True
    have "dec n = [char_of (48 + n)]" using True by (subst dec.simps) simp
    moreover have "is_digit (char_of (48 + n))"
      using True "1.prems" by (simp add: is_digit_def byte_char_of)
    ultimately show ?thesis by simp
  next
    case False
    then have "0 \<le> n div 10" by simp
    with False "1.IH" have a: "list_all is_digit (dec (n div 10))" by simp
    have b: "is_digit (char_of (48 + n mod 10))"
      by (simp add: is_digit_def byte_char_of)
    have "dec n = dec (n div 10) @ [char_of (48 + n mod 10)]"
      using False by (subst dec.simps) simp
    with a b show ?thesis by simp
  qed
qed

lemma percent_not_digit: "is_digit c \<Longrightarrow> c \<noteq> CHR ''%''"
  by (auto simp: is_digit_def byte_def)

lemma percent_notin_dec: "0 \<le> n \<Longrightarrow> CHR ''%'' \<notin> set (dec n)"
  using dec_digits [of n] percent_not_digit by (auto simp: list_all_iff)

lemma percent_notin_Itoa: "CHR ''%'' \<notin> set (Itoa i)"
  by (simp add: Itoa_def percent_notin_dec)

lemma replace_loop_Nil: "replace_loop [] old new = []"
  by (subst replace_loop.simps) simp

lemma replace_loop_hit:
  "old \<noteq> [] \<Longrightarrow> take (length old) s = old \<Longrightarrow>
   replace_loop s old new = new @ replace_loop (drop (length old) s) old new"
  by (subst replace_loop.simps) auto

lemma replace_loop_nohit:
  "old \<noteq> [] \<Longrightarrow> take (length old) (x # s) \<noteq> old \<Longrightarrow>
   replace_loop (x # s) old new = x # replace_loop s old new"
  by (subst replace_loop.simps) simp

lemma replace_loop_skip:
  "old \<noteq> [] \<Longrightarrow> hd old \<notin> set a \<Longrightarrow> replace_loop (a @ b) old new = a @ replace_loop b old new"
proof (induction a)
  case Nil
  then show ?case by simp
next
  case (Cons x a)
  from Cons.prems have ne: "x \<noteq> hd old" by auto
  from Cons.prems(1) obtain o1 os where old: "old = o1 # os" by (cases old) auto
  with ne have "take (length old) (x # (a @ b)) \<noteq> old" by auto
  with Cons show ?case
    by (simp add: replace_loop_nohit)
qed

lemma replace_loop_absent:
  "old \<noteq> [] \<Longrightarrow> hd old \<notin> set s \<Longrightarrow> replace_loop s old new = s"
  using replace_loop_skip [of old s "[]" new] by (simp add: replace_loop_Nil)

lemma no_placeholders_patch: "FindAllString placeholderRe ''v%X.%Y.%Z'' = []"
  by code_simp

lemmas replace_loop_rules = replace_loop_Nil replace_loop_hit replace_loop_nohit replace_loop_skip
  percent_notin_Itoa

lemma Format_patch:
  "Format v ''v%X.%Y.%Z'' =
     Inr (''v'' @ Itoa (year v) @ ''.'' @ Itoa (ordinal v) @ ''.'' @ Itoa (patch v))"
proof -
  let ?X = "Itoa (year v)" and ?Y = "Itoa (ordinal v)" and ?Z = "Itoa (patch v)"
  let ?R = "''v'' @ ?X @ ''.'' @ ?Y @ ''.'' @ ?Z"
  have s1: "ReplaceAll ''v%X.%Y.%Z'' ''%X'' ?X = ''v'' @ ?X @ ''.%Y.%Z''"
    by (simp add: ReplaceAll_def replace_loop_rules)
  have s2: "ReplaceAll (''v'' @ ?X @ ''.%Y.%Z'') ''%Y'' ?Y = ''v'' @ ?X @ ''.'' @ ?Y @ ''.%Z''"
    by (simp add: ReplaceAll_def replace_loop_rules)
  have s3: "ReplaceAll (''v'' @ ?X @ ''.'' @ ?Y @ ''.%Z'') ''%Z'' ?Z = ?R"
    by (simp add: ReplaceAll_def replace_loop_rules)
  have clean: "CHR ''%'' \<notin> set ?R"
    by (simp add: percent_notin_Itoa)
  have rest: "ReplaceAll ?R [CHR ''%'', c] new = ?R" for c new
    unfolding ReplaceAll_def using clean by (simp add: replace_loop_absent)
  show ?thesis
    unfolding Format_def Let_def no_placeholders_patch
    by (simp only: s1 s2 s3 rest list.size if_False less_irrefl)
qed

lemma IncPatch_stable:
  assumes "phase v = stable"
  shows "IncPatch v = Inr (\<lparr>year = year v, ordinal = ordinal v, patch = patch v + 1,
           phase = stable, phaseOrdinal = 0, phaseSubOrdinal = 0, customOrdinal = 0,
           adhocLabel = [],
           raw = ''v'' @ Itoa (year v) @ ''.'' @ Itoa (ordinal v) @ ''.'' @ Itoa (patch v + 1)\<rparr>,
         None)"
  using assms by (simp add: IncPatch_def Let_def Format_patch Version_zero_def)

lemma IncPatch_not_stable:
  assumes "phase v \<noteq> stable"
  shows "IncPatch v = Inr (Version_zero, Some (NotStable (String v)))"
  using assms by (simp add: IncPatch_def)

text \<open>
  Claim C5. For every version \<open>v\<close>, \<open>IncPatch\<close> returns an error exactly when the phase of
  \<open>v\<close> is not \<open>stable\<close>. When it is, the result is a new version whose patch is the patch
  of \<open>v\<close> plus 1 (Go's \<open>+\<close> on \<open>int\<close>), whose year, ordinal and phase are those of \<open>v\<close>,
  whose other fields are zero or empty, and whose raw string is
  \<open>Format("v%X.%Y.%Z")\<close> of the new value, that is \<open>v<year>.<ordinal>.<patch+1>\<close>.
  The receiver is passed by value: the function only reads \<open>v\<close>.
\<close>

theorem IncPatch_spec:
  "((\<exists>w e. IncPatch v = Inr (w, Some e)) \<longleftrightarrow> phase v \<noteq> stable) \<and>
   (phase v \<noteq> stable \<longrightarrow> IncPatch v = Inr (Version_zero, Some (NotStable (String v)))) \<and>
   (phase v = stable \<longrightarrow>
      (\<exists>w. IncPatch v = Inr (w, None) \<and>
           patch w = patch v + 1 \<and> year w = year v \<and> ordinal w = ordinal v \<and>
           phase w = phase v \<and>
           phaseOrdinal w = 0 \<and> phaseSubOrdinal w = 0 \<and> customOrdinal w = 0 \<and>
           adhocLabel w = [] \<and>
           Format w ''v%X.%Y.%Z'' = Inr (raw w) \<and>
           raw w = ''v'' @ Itoa (year v) @ ''.'' @ Itoa (ordinal v) @ ''.'' @ Itoa (patch v + 1)))"
proof (cases "phase v = stable")
  case True
  from IncPatch_stable [OF True] True show ?thesis
    by (simp add: Format_patch)
next
  case False
  from IncPatch_not_stable [OF False] False show ?thesis by simp
qed

theorem IncPatch_spec_witness:
  "phase (fst (Parse ''v24.1.0'')) = stable \<and>
   phase (fst (Parse ''v24.1.0-rc.1'')) \<noteq> stable \<and>
   (\<exists>w. IncPatch (fst (Parse ''v24.1.0'')) = Inr (w, None) \<and>
        patch w = patch (fst (Parse ''v24.1.0'')) + 1 \<and>
        raw w = ''v'' @ Itoa (year (fst (Parse ''v24.1.0''))) @ ''.'' @
          Itoa (ordinal (fst (Parse ''v24.1.0''))) @ ''.'' @
          Itoa (patch (fst (Parse ''v24.1.0'')) + 1)) \<and>
   IncPatch (fst (Parse ''v24.1.0-rc.1'')) =
     Inr (Version_zero, Some (NotStable (String (fst (Parse ''v24.1.0-rc.1'')))))"
proof -
  have a: "phase (fst (Parse ''v24.1.0'')) = stable" by code_simp
  have b: "phase (fst (Parse ''v24.1.0-rc.1'')) \<noteq> stable" by code_simp
  from a b IncPatch_spec [of "fst (Parse ''v24.1.0'')"]
    IncPatch_spec [of "fst (Parse ''v24.1.0-rc.1'')"]
  show ?thesis by blast
qed

lemma IncPatch_example: "IncPatch (fst (Parse ''v24.1.0'')) = Inr (fst (Parse ''v24.1.1''), None)"
  by code_simp

section \<open>Year zero\<close>

lemmas pattern_defs = patterns_def pattern1_def pattern2_def pattern3_def pattern4_def
  pattern5_def pattern6_def pattern7_def pattern8_def pattern9_def vXY_def dotZ_def
  posnum_def num0_def digit19_def digit09_def phase_group_def git_sha_def fips_def Plus_def

lemma zero_not_digit19: "\<not> in_cset (CHR ''0'') [Rng (CHR ''1'') (CHR ''9'')]"
  by (simp add: in_cset_def byte_def)

lemma no_pattern_matches_v0:
  "p \<in> set patterns \<Longrightarrow> run p (CHR ''v'' # CHR ''0'' # s) c = []"
  by (auto simp: pattern_defs zero_not_digit19)

lemma parse_loop_no_match:
  "(\<And>p. p \<in> set ps \<Longrightarrow> \<not> MatchString p s) \<Longrightarrow>
   parse_loop ps s v = (Version_zero, Some (InvalidVersionString s))"
  by (induction ps) auto

lemma Parse_v0: "Parse (CHR ''v'' # CHR ''0'' # s) =
  (Version_zero, Some (InvalidVersionString (CHR ''v'' # CHR ''0'' # s)))"
  unfolding Parse_def
  by (rule parse_loop_no_match) (simp add: MatchString_def no_pattern_matches_v0)

lemma in_digit09: "in_cset x [Rng (CHR ''0'') (CHR ''9'')] = is_digit x"
  by (simp add: in_cset_def is_digit_def byte_def)

lemma run_digit09_Cons:
  "run digit09 (x # xs) c = (if is_digit x then [(xs, c)] else [])"
  by (simp add: digit09_def in_digit09)

lemma run_Star_digit09_Nil: "run (Star digit09) [] c = [([], c)]"
  by (subst run.simps(10)) (simp add: digit09_def)

lemma run_Star_digit09_Cons:
  "run (Star digit09) (x # xs) c =
     (if is_digit x then run (Star digit09) xs c @ [(x # xs, c)] else [(x # xs, c)])"
  by (subst run.simps(10)) (simp add: run_digit09_Cons)

lemma Star_digits_full:
  "list_all is_digit ds \<Longrightarrow> filter (\<lambda>p. fst p = []) (run (Star digit09) ds c) = [([], c)]"
  by (induction ds) (simp_all add: run_Star_digit09_Nil run_Star_digit09_Cons)

lemma run_Seq_Eol: "run (Seq r Eol) s c = filter (\<lambda>p. fst p = []) (run r s c)"
proof -
  have "concat (map (\<lambda>p. run Eol (fst p) (snd p)) L) = filter (\<lambda>p. fst p = []) L"
    for L :: "(string \<times> caps) list"
    by (induction L) auto
  then show ?thesis by simp
qed

lemma filter_run_Grp:
  "filter (\<lambda>p. fst p = []) (run (Grp n r) s c) =
     map (\<lambda>p. ([], (n, s) # snd p)) (filter (\<lambda>p. fst p = []) (run r s c))"
proof -
  have "filter (\<lambda>p. fst p = []) (map (\<lambda>p. (fst p, (n, take (length s - length (fst p)) s) # snd p)) L)
      = map (\<lambda>p. ([], (n, s) # snd p)) (filter (\<lambda>p. fst p = []) L)"
    for L :: "(string \<times> caps) list"
    by (induction L) auto
  then show ?thesis by simp
qed

lemma in_digit19: "in_cset d [Rng (CHR ''1'') (CHR ''9'')] = (49 \<le> byte d \<and> byte d \<le> 57)"
  by (simp add: in_cset_def byte_def)

lemma dec_pos_shape:
  "1 \<le> n \<Longrightarrow> \<exists>d ds. dec n = d # ds \<and> in_cset d [Rng (CHR ''1'') (CHR ''9'')] \<and> list_all is_digit ds"
proof (induction n rule: dec.induct)
  case (1 n)
  show ?case
  proof (cases "n < 10")
    case True
    have "dec n = [char_of (48 + n)]" using True by (subst dec.simps) simp
    moreover have "in_cset (char_of (48 + n)) [Rng (CHR ''1'') (CHR ''9'')]"
      using True "1.prems" by (simp add: in_digit19 byte_char_of)
    ultimately show ?thesis by simp
  next
    case False
    then have "1 \<le> n div 10" by simp
    with False "1.IH" obtain d ds where
      a: "dec (n div 10) = d # ds" "in_cset d [Rng (CHR ''1'') (CHR ''9'')]" "list_all is_digit ds"
      by blast
    have b: "is_digit (char_of (48 + n mod 10))"
      by (simp add: is_digit_def byte_char_of)
    have "dec n = dec (n div 10) @ [char_of (48 + n mod 10)]"
      using False by (subst dec.simps) simp
    with a b show ?thesis by simp
  qed
qed

lemma run_posnum_Cons:
  "run posnum (d # ds) c =
     (if in_cset d [Rng (CHR ''1'') (CHR ''9'')] then run (Star digit09) ds c else [])"
  by (simp add: posnum_def digit19_def)

lemma posnum_full:
  assumes "1 \<le> n"
  shows "filter (\<lambda>p. fst p = []) (run posnum (dec n) c) = [([], c)]"
proof -
  from dec_pos_shape [OF assms] obtain d ds where
    a: "dec n = d # ds" "in_cset d [Rng (CHR ''1'') (CHR ''9'')]" "list_all is_digit ds"
    by blast
  then show ?thesis by (simp add: run_posnum_Cons Star_digits_full)
qed

lemma run_Seq_single: "run r1 s c = [(s', c')] \<Longrightarrow> run (Seq r1 r2) s c = run r2 s' c'"
  by simp

lemma run_majorVersionRE_v0:
  assumes "1 \<le> n"
  shows "run majorVersionRE (''v0.'' @ dec n) [] = [([], [(''2'', dec n), (''1'', ''0'')])]"
proof -
  let ?T = "Seq (Grp ''2'' posnum) Eol"
  have tail: "run ?T (dec n) c = [([], (''2'', dec n) # c)]" for c
    by (simp only: run_Seq_Eol filter_run_Grp posnum_full [OF assms]) simp
  have l1: "run (Lit ''v'') (''v0.'' @ dec n) [] = [(''0.'' @ dec n, [])]" by simp
  have g1: "run (Grp ''1'' (Alt (Lit ''0'') posnum)) (''0.'' @ dec n) [] =
      [(''.'' @ dec n, [(''1'', ''0'')])]"
    by (simp add: run_posnum_Cons zero_not_digit19)
  have l2: "run (Lit ''.'') (''.'' @ dec n) [(''1'', ''0'')] = [(dec n, [(''1'', ''0'')])]" by simp
  have "run majorVersionRE (''v0.'' @ dec n) [] = run ?T (dec n) [(''1'', ''0'')]"
    unfolding majorVersionRE_def seq.simps
    by (simp only: run_Seq_single [OF l1] run_Seq_single [OF g1] run_Seq_single [OF l2])
  with tail show ?thesis by simp
qed

lemma Atoi_zero: "Atoi ''0'' = (0, False)"
  by code_simp

lemma ParseMajorVersion_v0:
  assumes "1 \<le> n"
  shows "ParseMajorVersion (''v0.'' @ dec n) = (\<lparr>Year = 0, Ordinal = fst (Atoi (dec n))\<rparr>, None)"
  unfolding ParseMajorVersion_def MatchString_def FindStringSubmatch_def
    run_majorVersionRE_v0 [OF assms]
  by (simp add: submatch_def Atoi_zero)

text \<open>
  Claim C10. \<open>Parse\<close> rejects year zero and \<open>ParseMajorVersion\<close> accepts it: for every
  string that begins with \<open>v0.\<close>, \<open>Parse\<close> returns \<open>Version{}\<close> and the error for an invalid
  version string; for every ordinal \<open>n \<ge> 1\<close>, written in decimal, \<open>ParseMajorVersion\<close> of
  \<open>v0.n\<close> returns no error and a major version of year 0.
\<close>

theorem year_zero:
  "Parse (''v0.'' @ t) = (Version_zero, Some (InvalidVersionString (''v0.'' @ t))) \<and>
   (1 \<le> n \<longrightarrow>
      ParseMajorVersion (''v0.'' @ dec n) = (\<lparr>Year = 0, Ordinal = fst (Atoi (dec n))\<rparr>, None))"
  using Parse_v0 [of "CHR ''.'' # t"] ParseMajorVersion_v0 [of n] by simp

theorem year_zero_witness:
  "(1::int) \<le> 12 \<and> dec 12 = ''12'' \<and> fst (Atoi (dec 12)) = 12 \<and>
   ParseMajorVersion (''v0.'' @ dec 12) = (\<lparr>Year = 0, Ordinal = fst (Atoi (dec 12))\<rparr>, None) \<and>
   Parse (''v0.'' @ ''1.0'') = (Version_zero, Some (InvalidVersionString (''v0.'' @ ''1.0'')))"
proof -
  have a: "dec 12 = ''12''" by code_simp
  have b: "fst (Atoi (dec 12)) = 12" by code_simp
  from a b year_zero [of "''1.0''" 12] show ?thesis by simp
qed

section \<open>What a capture group can hold\<close>

lemma drop_suffix: "\<exists>t. s = t @ drop k s"
  by (metis append_take_drop_id)

lemma run_suffix:
  "(rest, c') \<in> set (run r s c) \<Longrightarrow> \<exists>t. s = t @ rest"
proof (induction r s c arbitrary: rest c' rule: run.induct)
  case (1 s c)
  then show ?case by simp
next
  case (2 l s c)
  then show ?case by (auto split: if_splits simp: drop_suffix)
next
  case (3 cs s c)
  then show ?case by (auto split: list.splits if_splits)
next
  case (4 cs s c)
  then show ?case
    by (auto split: list.splits if_splits simp del: rune_width.simps simp: drop_suffix)
next
  case (5 s c)
  then show ?case
    by (auto split: list.splits if_splits simp del: rune_width.simps simp: drop_suffix)
next
  case (6 s c)
  then show ?case by (auto split: if_splits)
next
  case (7 r1 r2 s c)
  from "7.prems" obtain p where p: "p \<in> set (run r1 s c)" "(rest, c') \<in> set (run r2 (fst p) (snd p))"
    by auto
  from "7.IH"(1) [of "fst p" "snd p"] p(1) obtain t1 where "s = t1 @ fst p" by auto
  moreover from "7.IH"(2) [OF p(1) p(2)] obtain t2 where "fst p = t2 @ rest" by auto
  ultimately show ?case by auto
next
  case (8 r1 r2 s c)
  then show ?case by auto
next
  case (9 r s c)
  then show ?case by auto
next
  case (10 r s c)
  from "10.prems" have "(rest, c') = (s, c) \<or>
    (\<exists>p \<in> set (run r s c). length (fst p) < length s \<and> (rest, c') \<in> set (run (Star r) (fst p) (snd p)))"
    by (subst (asm) run.simps(10)) (auto split: if_splits)
  then show ?case
  proof
    assume "(rest, c') = (s, c)"
    then show ?thesis by simp
  next
    assume "\<exists>p \<in> set (run r s c). length (fst p) < length s \<and> (rest, c') \<in> set (run (Star r) (fst p) (snd p))"
    then obtain p where p: "p \<in> set (run r s c)" "length (fst p) < length s"
      "(rest, c') \<in> set (run (Star r) (fst p) (snd p))" by blast
    from "10.IH"(1) [of "fst p" "snd p"] p(1) obtain t1 where "s = t1 @ fst p" by auto
    moreover from "10.IH"(2) [OF p(1) p(2) p(3)] obtain t2 where "fst p = t2 @ rest" by auto
    ultimately show ?thesis by auto
  qed
next
  case (11 n r s c)
  then show ?case by auto
qed

lemma run_length: "(rest, c') \<in> set (run r s c) \<Longrightarrow> length rest \<le> length s"
  using run_suffix [of rest c' r s c] by auto

lemma run_Star_cases:
  assumes "(rest, c') \<in> set (run (Star r) s c)"
  obtains "rest = s" "c' = c"
  | p where "p \<in> set (run r s c)" "length (fst p) < length s"
      "(rest, c') \<in> set (run (Star r) (fst p) (snd p))"
  using assms by (subst (asm) run.simps(10)) (auto split: if_splits)

lemma caps_invariant:
  assumes grp: "\<And>n b s rest c c'. P n b \<Longrightarrow> (rest, c') \<in> set (run b s c) \<Longrightarrow>
                  Q n (take (length s - length rest) s)"
  shows "grp_all P r \<Longrightarrow> list_all (\<lambda>e. Q (fst e) (snd e)) c \<Longrightarrow> (rest, c') \<in> set (run r s c) \<Longrightarrow>
         list_all (\<lambda>e. Q (fst e) (snd e)) c'"
proof (induction r s c arbitrary: rest c' rule: run.induct)
  case (1 s c)
  then show ?case by simp
next
  case (2 l s c)
  then show ?case by (auto split: if_splits)
next
  case (3 cs s c)
  then show ?case by (auto split: list.splits if_splits)
next
  case (4 cs s c)
  then show ?case by (auto split: list.splits if_splits simp del: rune_width.simps)
next
  case (5 s c)
  then show ?case by (auto split: list.splits if_splits simp del: rune_width.simps)
next
  case (6 s c)
  then show ?case by (auto split: if_splits)
next
  case (7 r1 r2 s c)
  from "7.prems"(3) obtain p where p: "p \<in> set (run r1 s c)"
    "(rest, c') \<in> set (run r2 (fst p) (snd p))" by auto
  from "7.prems"(1) have g: "grp_all P r1" "grp_all P r2" by simp_all
  from "7.IH"(1) [OF g(1) "7.prems"(2), of "fst p" "snd p"] p(1)
  have "list_all (\<lambda>e. Q (fst e) (snd e)) (snd p)" by simp
  from "7.IH"(2) [OF p(1) g(2) this p(2)] show ?case .
next
  case (8 r1 r2 s c)
  then show ?case by auto
next
  case (9 r s c)
  then show ?case by auto
next
  case (10 r s c)
  from "10.prems"(1) have g: "grp_all P r" by simp
  from "10.prems"(3) show ?case
  proof (cases rule: run_Star_cases)
    case 1
    with "10.prems"(2) show ?thesis by simp
  next
    case (2 p)
    from "10.IH"(1) [OF g "10.prems"(2), of "fst p" "snd p"] 2(1)
    have "list_all (\<lambda>e. Q (fst e) (snd e)) (snd p)" by simp
    from "10.IH"(2) [OF 2(1) 2(2) "10.prems"(1) this 2(3)] show ?thesis .
  qed
next
  case (11 n r s c)
  from "11.prems"(3) obtain p where p: "p \<in> set (run r s c)" "rest = fst p"
    "c' = (n, take (length s - length (fst p)) s) # snd p" by auto
  from "11.prems"(1) have g: "P n r" "grp_all P r" by simp_all
  from "11.IH" [OF g(2) "11.prems"(2), of "fst p" "snd p"] p(1)
  have "list_all (\<lambda>e. Q (fst e) (snd e)) (snd p)" by simp
  moreover from grp [OF g(1), of "fst p" "snd p" s c] p(1)
  have "Q n (take (length s - length (fst p)) s)" by simp
  ultimately show ?case using p by simp
qed

lemma submatch_cases: "submatch m n = [] \<or> (n, submatch m n) \<in> set m"
  by (cases "map_of m n") (auto simp: submatch_def dest: map_of_SomeD)

lemma take_eq_length: "take (length l) s = l \<Longrightarrow> length l \<le> length s"
proof -
  assume "take (length l) s = l"
  then have "min (length s) (length l) = length l" by (metis length_take)
  then show ?thesis by simp
qed

subsection \<open>The phase group\<close>

lemma phase_names_only_sound:
  "phase_names_only b \<Longrightarrow> (rest, c') \<in> set (run b s c) \<Longrightarrow>
   preReleasePhase (take (length s - length rest) s) \<noteq> None"
proof (induction b arbitrary: rest c' rule: phase_names_only.induct)
  case (1 l)
  then have "take (length l) s = l" "rest = drop (length l) s" by (auto split: if_splits)
  moreover from this have "length l \<le> length s" by (simp add: take_eq_length)
  ultimately show ?case using 1 by simp
next
  case (2 a b)
  then show ?case by auto
qed simp_all

lemma patterns_phase_closed: "list_all phase_closed patterns"
  by (simp add: phase_closed_def pattern_defs preReleasePhase_def)

lemma match_phase_known:
  assumes "p \<in> set patterns" "(rest, m) \<in> set (run p s [])"
  shows "submatch m ''phase'' = [] \<or> preReleasePhase (submatch m ''phase'') \<noteq> None"
proof -
  let ?Q = "\<lambda>n t. n = ''phase'' \<longrightarrow> preReleasePhase t \<noteq> None"
  from assms(1) patterns_phase_closed have "phase_closed p" by (simp add: list_all_iff)
  then have "list_all (\<lambda>e. ?Q (fst e) (snd e)) m"
    unfolding phase_closed_def
    by (rule caps_invariant [where Q = ?Q and c = "[]", rotated])
      (use assms(2) phase_names_only_sound in auto)
  then show ?thesis
    using submatch_cases [of m "''phase''"] by (auto simp: list_all_iff)
qed

lemma fill_phase_never_fails:
  assumes "submatch m ''phase'' = [] \<or> preReleasePhase (submatch m ''phase'') \<noteq> None"
  shows "\<exists>w. fill_phase m v = Inr w"
  using assms by (auto simp: fill_phase_def Let_def)

lemma fill_no_error:
  assumes "submatch m ''phase'' = [] \<or> preReleasePhase (submatch m ''phase'') \<noteq> None"
  shows "snd (fill m v) = None"
  using fill_phase_never_fails [OF assms, of "fill_major m v"] by (auto simp: fill_def)

lemma FindStringSubmatch_in_run:
  "FindStringSubmatch p s = Some m \<Longrightarrow> \<exists>rest. (rest, m) \<in> set (run p s [])"
  by (cases "run p s []") (auto simp: FindStringSubmatch_def)

lemma parse_loop_error_is_invalid:
  assumes "set ps \<subseteq> set patterns"
  shows "snd (parse_loop ps s v) = None \<or> snd (parse_loop ps s v) = Some (InvalidVersionString s)"
  using assms
proof (induction ps)
  case Nil
  then show ?case by simp
next
  case (Cons p ps)
  show ?case
  proof (cases "MatchString p s")
    case False
    with Cons show ?thesis by simp
  next
    case True
    show ?thesis
    proof (cases "FindStringSubmatch p s")
      case None
      with Cons True show ?thesis by simp
    next
      case (Some m)
      then obtain rest where "(rest, m) \<in> set (run p s [])"
        using FindStringSubmatch_in_run by blast
      with Cons.prems have "submatch m ''phase'' = [] \<or> preReleasePhase (submatch m ''phase'') \<noteq> None"
        using match_phase_known [of p rest m s] by simp
      from fill_no_error [OF this] True Some show ?thesis by simp
    qed
  qed
qed

text \<open>
  Claim C8. The ``unknown phase'' branch of \<open>Parse\<close> is unreachable: for every input
  string the error \<open>Parse\<close> returns, if any, is the one for an invalid version string,
  because the group \<open>phase\<close> of every pattern is an alternation of names that are
  all keys of \<open>preReleasePhase\<close>.
\<close>

theorem unknown_phase_unreachable:
  "snd (Parse s) \<noteq> Some (UnknownPhase ph) \<and>
   (snd (Parse s) = None \<or> snd (Parse s) = Some (InvalidVersionString s))"
  using parse_loop_error_is_invalid [of patterns s "Version_zero\<lparr>raw := s, phase := stable\<rparr>"]
  by (auto simp: Parse_def)

subsection \<open>The numeric groups\<close>

lemma in_digits_is_digit: "list_all in_digits cs \<Longrightarrow> in_cset x cs \<Longrightarrow> is_digit x"
proof (induction cs)
  case Nil
  then show ?case by (simp add: in_cset_def)
next
  case (Cons r cs)
  then show ?case by (cases r) (auto simp: in_cset_def is_digit_def)
qed

lemma starts_digit_sound:
  "starts_digit b \<Longrightarrow> (rest, c') \<in> set (run b s c) \<Longrightarrow>
   s \<noteq> [] \<and> is_digit (hd s) \<and> length rest < length s"
proof (induction b arbitrary: rest c' s c rule: starts_digit.induct)
  case (1 cs)
  then show ?case by (auto split: list.splits if_splits dest: in_digits_is_digit)
next
  case (2 l)
  then have a: "take (length l) s = l" "rest = drop (length l) s" "l \<noteq> []" "is_digit (hd l)"
    by (auto split: if_splits)
  then have "s \<noteq> []" by auto
  moreover from a have "hd s = hd l" by (metis hd_take length_greater_0_conv)
  moreover from a calculation have "length rest < length s" by simp
  ultimately show ?case using a by simp
next
  case (3 a b)
  from "3.prems" obtain p where p: "p \<in> set (run a s c)"
    "(rest, c') \<in> set (run b (fst p) (snd p))" by auto
  from "3.IH" [of "fst p" "snd p" s c] "3.prems"(1) p(1)
  have "s \<noteq> [] \<and> is_digit (hd s) \<and> length (fst p) < length s" by simp
  moreover from run_length [OF p(2)] have "length rest \<le> length (fst p)" .
  ultimately show ?case by simp
next
  case (4 a b)
  from "4.prems"(1) have sd: "starts_digit a" "starts_digit b" by simp_all
  from "4.prems"(2) have "(rest, c') \<in> set (run a s c) \<or> (rest, c') \<in> set (run b s c)" by simp
  then show ?case
  proof
    assume "(rest, c') \<in> set (run a s c)"
    from "4.IH"(1) [OF sd(1) this] show ?thesis .
  next
    assume "(rest, c') \<in> set (run b s c)"
    from "4.IH"(2) [OF sd(2) this] show ?thesis .
  qed
qed simp_all

lemma patterns_numeric_closed: "list_all numeric_closed patterns"
  by (simp add: numeric_closed_def numeric_groups_def pattern_defs is_digit_def byte_def)

lemma match_numeric:
  assumes "p \<in> set patterns" "(rest, m) \<in> set (run p s [])" "n \<in> set numeric_groups"
  shows "submatch m n = [] \<or> is_digit (hd (submatch m n))"
proof -
  let ?Q = "\<lambda>n t. n \<in> set numeric_groups \<longrightarrow> t \<noteq> [] \<and> is_digit (hd t)"
  have grp: "?Q n (take (length s - length rest) s)"
    if "n \<in> set numeric_groups \<longrightarrow> starts_digit b" "(rest, c') \<in> set (run b s c)"
    for n b s rest c c'
  proof
    assume "n \<in> set numeric_groups"
    with that starts_digit_sound [of b rest c' s c]
    have "s \<noteq> []" "is_digit (hd s)" "length rest < length s" by simp_all
    then show "take (length s - length rest) s \<noteq> [] \<and> is_digit (hd (take (length s - length rest) s))"
      by (simp add: hd_take)
  qed
  from assms(1) patterns_numeric_closed have "numeric_closed p" by (simp add: list_all_iff)
  then have "list_all (\<lambda>e. ?Q (fst e) (snd e)) m"
    unfolding numeric_closed_def
    by (rule caps_invariant [where Q = ?Q and c = "[]", rotated]) (use assms(2) grp in auto)
  then show ?thesis
    using submatch_cases [of m n] assms(3) by (auto simp: list_all_iff)
qed

subsection \<open>Atoi on a text that begins with a digit\<close>

lemma ParseUint_loop_nonneg: "0 \<le> n \<Longrightarrow> ParseUint_loop n s = Num m \<Longrightarrow> 0 \<le> m"
proof (induction s arbitrary: n)
  case Nil
  then show ?case by simp
next
  case (Cons c s)
  from Cons.prems(2) have d: "is_digit c" by (auto split: if_splits)
  then have "0 \<le> n * 10 + (byte c - 48)" using Cons.prems(1) by (simp add: is_digit_def)
  with Cons.IH [of "n * 10 + (byte c - 48)"] Cons.prems(2) show ?case
    by (auto split: if_splits)
qed

lemma sint_of_int_small: "0 \<le> k \<Longrightarrow> k \<le> maxInt64 \<Longrightarrow> sint (of_int k :: 64 word) = k"
  by (simp add: signed_of_int signed_take_bit_int_eq_self maxInt64_def)

lemma Atoi_nonneg:
  assumes "is_digit (hd t)" "t \<noteq> []"
  shows "0 \<le>s fst (Atoi t)"
proof -
  from assms have h: "hd t \<noteq> CHR ''-''" "hd t \<noteq> CHR ''+''"
    by (auto simp: is_digit_def byte_def)
  have m: "sint (of_int maxInt64 :: 64 word) = maxInt64"
    by (rule sint_of_int_small) (simp_all add: maxInt64_def)
  show ?thesis
  proof (cases "ParseUint t")
    case SyntaxErr
    with h show ?thesis by (simp add: Atoi_def word_sle_eq)
  next
    case RangeErr
    with h m show ?thesis by (simp add: Atoi_def word_sle_eq maxInt64_def)
  next
    case (Num un)
    with assms(2) have "0 \<le> un" using ParseUint_loop_nonneg [of 0 t un]
      by (simp add: ParseUint_def)
    with Num h m show ?thesis
      by (auto simp: Atoi_def word_sle_eq sint_of_int_small maxInt64_def)
  qed
qed

lemma valid_zero: "valid Version_zero"
  by (simp add: valid_def Version_zero_def)

lemma fill_major_keeps:
  "phaseSubOrdinal (fill_major m v) = phaseSubOrdinal v \<and>
   customOrdinal (fill_major m v) = customOrdinal v \<and>
   adhocLabel (fill_major m v) = adhocLabel v"
  by (simp add: fill_major_def Let_def)

lemma fill_phase_keeps:
  assumes "fill_phase m v = Inr w"
  shows "customOrdinal w = customOrdinal v \<and> adhocLabel w = adhocLabel v \<and>
    (phaseSubOrdinal w = phaseSubOrdinal v \<or>
     submatch m ''phaseSubOrdinal'' \<noteq> [] \<and>
     phaseSubOrdinal w = fst (Atoi (submatch m ''phaseSubOrdinal'')))"
  using assms by (auto simp: fill_phase_def Let_def split: if_splits option.splits)

lemma fill_build_keeps:
  "phaseSubOrdinal (fill_build m v) = phaseSubOrdinal v \<and>
   (customOrdinal (fill_build m v) = customOrdinal v \<or>
    submatch m ''customOrdinal'' \<noteq> [] \<and>
    customOrdinal (fill_build m v) = fst (Atoi (submatch m ''customOrdinal''))) \<and>
   (adhocLabel (fill_build m v) = adhocLabel v \<or> phase (fill_build m v) = adhoc)"
  by (simp add: fill_build_def Let_def)

lemma fill_valid:
  assumes sub: "submatch m ''phaseSubOrdinal'' = [] \<or> is_digit (hd (submatch m ''phaseSubOrdinal''))"
    and cus: "submatch m ''customOrdinal'' = [] \<or> is_digit (hd (submatch m ''customOrdinal''))"
    and v: "phaseSubOrdinal v = 0" "customOrdinal v = 0" "adhocLabel v = []"
    and ok: "snd (fill m v) = None"
  shows "valid (fst (fill m v))"
proof -
  from ok obtain w where w: "fill_phase m (fill_major m v) = Inr w"
    "fst (fill m v) = fill_build m w"
    by (auto simp: fill_def split: sum.splits)
  from fill_phase_keeps [OF w(1)] fill_major_keeps [of m v] v
  have a: "customOrdinal w = 0" "adhocLabel w = []"
    "phaseSubOrdinal w = 0 \<or> submatch m ''phaseSubOrdinal'' \<noteq> [] \<and>
       phaseSubOrdinal w = fst (Atoi (submatch m ''phaseSubOrdinal''))"
    by auto
  from a(3) sub have s: "0 \<le>s phaseSubOrdinal w"
    by (auto simp: Atoi_nonneg)
  from fill_build_keeps [of m w] a(1) cus have c: "0 \<le>s customOrdinal (fill_build m w)"
    by (auto simp: Atoi_nonneg)
  from fill_build_keeps [of m w] a(2) s c show ?thesis
    unfolding w(2) valid_def by auto
qed

lemma parse_loop_valid:
  assumes "set ps \<subseteq> set patterns"
    and "phaseSubOrdinal v = 0" "customOrdinal v = 0" "adhocLabel v = []"
  shows "valid (fst (parse_loop ps s v))"
  using assms(1)
proof (induction ps)
  case Nil
  then show ?case by (simp add: valid_zero)
next
  case (Cons p ps)
  show ?case
  proof (cases "MatchString p s")
    case False
    with Cons show ?thesis by simp
  next
    case True
    show ?thesis
    proof (cases "FindStringSubmatch p s")
      case None
      with Cons True show ?thesis by simp
    next
      case (Some m)
      then obtain rest where r: "(rest, m) \<in> set (run p s [])"
        using FindStringSubmatch_in_run by blast
      from Cons.prems have p: "p \<in> set patterns" by simp
      have sub: "submatch m ''phaseSubOrdinal'' = [] \<or> is_digit (hd (submatch m ''phaseSubOrdinal''))"
        by (rule match_numeric [OF p r]) (simp add: numeric_groups_def)
      have cus: "submatch m ''customOrdinal'' = [] \<or> is_digit (hd (submatch m ''customOrdinal''))"
        by (rule match_numeric [OF p r]) (simp add: numeric_groups_def)
      have "valid (fst (fill m v))"
      proof (cases "snd (fill m v)")
        case None
        from fill_valid [OF sub cus assms(2-4) None] show ?thesis .
      next
        case (Some e)
        then show ?thesis using fill_error_zero [of m v] by (simp add: valid_zero)
      qed
      with True Some show ?thesis by simp
    qed
  qed
qed

lemma Parse_valid: "valid (fst (Parse s))"
  unfolding Parse_def by (rule parse_loop_valid) (simp_all add: Version_zero_def)

lemma percent_notin_phase_text: "CHR ''%'' \<notin> set (phase_text p)"
  by (simp add: phase_text_def phaseName_def)

lemma no_placeholders_prerelease: "FindAllString placeholderRe ''v%X.%Y.%Z-%P.%o'' = []"
  by code_simp

lemma Format_prerelease:
  "Format v ''v%X.%Y.%Z-%P.%o'' =
     Inr (''v'' @ Itoa (year v) @ ''.'' @ Itoa (ordinal v) @ ''.'' @ Itoa (patch v) @ ''-'' @
          phase_text (phase v) @ ''.'' @ Itoa (phaseOrdinal v))"
proof -
  let ?X = "Itoa (year v)" and ?Y = "Itoa (ordinal v)" and ?Z = "Itoa (patch v)"
  let ?P = "phase_text (phase v)" and ?O = "Itoa (phaseOrdinal v)"
  let ?R = "''v'' @ ?X @ ''.'' @ ?Y @ ''.'' @ ?Z @ ''-'' @ ?P @ ''.'' @ ?O"
  note rules = ReplaceAll_def replace_loop_rules percent_notin_phase_text
  have s1: "ReplaceAll ''v%X.%Y.%Z-%P.%o'' ''%X'' ?X = ''v'' @ ?X @ ''.%Y.%Z-%P.%o''"
    by (simp add: rules)
  have s2: "ReplaceAll (''v'' @ ?X @ ''.%Y.%Z-%P.%o'') ''%Y'' ?Y
      = ''v'' @ ?X @ ''.'' @ ?Y @ ''.%Z-%P.%o''"
    by (simp add: rules)
  have s3: "ReplaceAll (''v'' @ ?X @ ''.'' @ ?Y @ ''.%Z-%P.%o'') ''%Z'' ?Z
      = ''v'' @ ?X @ ''.'' @ ?Y @ ''.'' @ ?Z @ ''-%P.%o''"
    by (simp add: rules)
  have s4: "ReplaceAll (''v'' @ ?X @ ''.'' @ ?Y @ ''.'' @ ?Z @ ''-%P.%o'') ''%p'' new
      = ''v'' @ ?X @ ''.'' @ ?Y @ ''.'' @ ?Z @ ''-%P.%o''" for new
    by (simp add: rules)
  have s5: "ReplaceAll (''v'' @ ?X @ ''.'' @ ?Y @ ''.'' @ ?Z @ ''-%P.%o'') ''%P'' ?P
      = ''v'' @ ?X @ ''.'' @ ?Y @ ''.'' @ ?Z @ ''-'' @ ?P @ ''.%o''"
    by (simp add: rules)
  have s6: "ReplaceAll (''v'' @ ?X @ ''.'' @ ?Y @ ''.'' @ ?Z @ ''-'' @ ?P @ ''.%o'') ''%o'' ?O = ?R"
    by (simp add: rules)
  have clean: "CHR ''%'' \<notin> set ?R"
    by (simp add: percent_notin_Itoa percent_notin_phase_text)
  have rest: "ReplaceAll ?R [CHR ''%'', c] new = ?R" for c new
    unfolding ReplaceAll_def using clean by (simp add: replace_loop_absent)
  show ?thesis
    unfolding Format_def Let_def no_placeholders_prerelease phase_text_def [symmetric]
    by (simp only: s1 s2 s3 s4 s5 s6 rest list.size if_False less_irrefl)
qed

lemma IncPreRelease_error_iff:
  "(\<exists>w e. IncPreRelease v = Inr (w, Some e)) \<longleftrightarrow>
   (\<not> IsPrerelease v \<or> 0 <s phaseSubOrdinal v \<or> 0 <s customOrdinal v)"
  by (auto simp: IncPreRelease_def Let_def Format_prerelease)

lemma IncPreRelease_ok:
  assumes "IsPrerelease v" "\<not> 0 <s phaseSubOrdinal v" "\<not> 0 <s customOrdinal v"
  shows "IncPreRelease v =
     Inr (\<lparr>year = year v, ordinal = ordinal v, patch = patch v, phase = phase v,
           phaseOrdinal = phaseOrdinal v + 1, phaseSubOrdinal = 0, customOrdinal = 0,
           adhocLabel = [],
           raw = ''v'' @ Itoa (year v) @ ''.'' @ Itoa (ordinal v) @ ''.'' @ Itoa (patch v) @
             ''-'' @ phase_text (phase v) @ ''.'' @ Itoa (phaseOrdinal v + 1)\<rparr>, None)"
  using assms by (simp add: IncPreRelease_def Let_def Format_prerelease Version_zero_def)

lemma IncPreRelease_not_prerelease:
  "\<not> IsPrerelease v \<Longrightarrow> IncPreRelease v = Inr (Version_zero, Some NotPrerelease)"
  by (simp add: IncPreRelease_def)

lemma IncPreRelease_modified:
  "IsPrerelease v \<Longrightarrow> 0 <s phaseSubOrdinal v \<or> 0 <s customOrdinal v \<Longrightarrow>
   IncPreRelease v = Inr (Version_zero, Some OnlyUnmodified)"
  by (simp add: IncPreRelease_def)

lemma IncPatch_valid:
  assumes "IncPatch v = Inr (w, e)"
  shows "valid w"
proof (cases "phase v = stable")
  case True
  from IncPatch_stable [OF True] assms show ?thesis by (auto simp: valid_def)
next
  case False
  from IncPatch_not_stable [OF False] assms show ?thesis by (auto simp: valid_zero)
qed

lemma IncPreRelease_valid:
  assumes "IncPreRelease v = Inr (w, e)"
  shows "valid w"
proof (cases "IsPrerelease v")
  case False
  from IncPreRelease_not_prerelease [OF False] assms show ?thesis by (auto simp: valid_zero)
next
  case True
  show ?thesis
  proof (cases "0 <s phaseSubOrdinal v \<or> 0 <s customOrdinal v")
    case True
    from IncPreRelease_modified [OF \<open>IsPrerelease v\<close> True] assms show ?thesis
      by (auto simp: valid_zero)
  next
    case False
    then have "\<not> 0 <s phaseSubOrdinal v" "\<not> 0 <s customOrdinal v" by simp_all
    from IncPreRelease_ok [OF True this] assms show ?thesis by (auto simp: valid_def)
  qed
qed

lemma reachable_valid: "reachable v \<Longrightarrow> valid v"
  by (induction rule: reachable.induct)
    (auto simp: valid_zero Parse_valid IncPatch_valid IncPreRelease_valid)

lemma sle_not_sless_zero: "0 \<le>s x \<Longrightarrow> \<not> 0 <s x \<Longrightarrow> x = 0"
  for x :: "64 word"
proof -
  assume "0 \<le>s x" "\<not> 0 <s x"
  then have "sint x = sint (0 :: 64 word)" by (simp add: word_sle_eq word_sless_alt)
  then show "x = 0" by (rule signed_word_eqI)
qed

lemma valid_prerelease_clean:
  assumes "valid v" "IsPrerelease v" "\<not> 0 <s phaseSubOrdinal v" "\<not> 0 <s customOrdinal v"
  shows "phaseSubOrdinal v = 0 \<and> customOrdinal v = 0 \<and> adhocLabel v = []"
proof -
  from assms(2) have "phase v \<noteq> adhoc"
    by (auto simp: IsPrerelease_def adhoc_def cloudonly_def word_sless_alt)
  with assms show ?thesis
    by (auto simp: valid_def sle_not_sless_zero)
qed

text \<open>
  Claim C6. \<open>IncPreRelease\<close> returns an error exactly when \<open>IsPrerelease()\<close> is false or
  \<open>phaseSubOrdinal > 0\<close> or \<open>customOrdinal > 0\<close>. Otherwise it returns a new version with
  \<open>phaseOrdinal\<close> plus 1 (Go's \<open>+\<close> on \<open>int\<close>), with year, ordinal, patch and phase copied,
  with \<open>phaseSubOrdinal\<close>, \<open>customOrdinal\<close> and \<open>adhocLabel\<close> zero or empty, and with raw
  \<open>Format("v%X.%Y.%Z-%P.%o")\<close> of the new value. For every version the package hands
  out (\<open>reachable\<close>) the three fields that are not copied are zero or empty in the
  receiver as well, so that every comparison field but \<open>phaseOrdinal\<close> is that of the
  receiver. On \<open>Parse("v24.1.0-rc.1")\<close> the result is \<open>Parse("v24.1.0-rc.2")\<close>, raw
  string included.
\<close>

theorem IncPreRelease_spec:
  "((\<exists>w e. IncPreRelease v = Inr (w, Some e)) \<longleftrightarrow>
      (\<not> IsPrerelease v \<or> 0 <s phaseSubOrdinal v \<or> 0 <s customOrdinal v)) \<and>
   (IsPrerelease v \<and> \<not> 0 <s phaseSubOrdinal v \<and> \<not> 0 <s customOrdinal v \<longrightarrow>
      (\<exists>w. IncPreRelease v = Inr (w, None) \<and>
           phaseOrdinal w = phaseOrdinal v + 1 \<and>
           year w = year v \<and> ordinal w = ordinal v \<and> patch w = patch v \<and>
           phase w = phase v \<and> phaseSubOrdinal w = 0 \<and> customOrdinal w = 0 \<and>
           adhocLabel w = [] \<and>
           Format w ''v%X.%Y.%Z-%P.%o'' = Inr (raw w))) \<and>
   (reachable v \<and> IsPrerelease v \<and> \<not> 0 <s phaseSubOrdinal v \<and> \<not> 0 <s customOrdinal v \<longrightarrow>
      (\<exists>w. IncPreRelease v = Inr (w, None) \<and>
           phaseOrdinal w = phaseOrdinal v + 1 \<and>
           year w = year v \<and> ordinal w = ordinal v \<and> patch w = patch v \<and>
           phase w = phase v \<and> phaseSubOrdinal w = phaseSubOrdinal v \<and>
           customOrdinal w = customOrdinal v \<and> adhocLabel w = adhocLabel v \<and>
           Format w ''v%X.%Y.%Z-%P.%o'' = Inr (raw w))) \<and>
   IncPreRelease (fst (Parse ''v24.1.0-rc.1'')) = Inr (fst (Parse ''v24.1.0-rc.2''), None)"
proof -
  have ex: "IncPreRelease (fst (Parse ''v24.1.0-rc.1'')) = Inr (fst (Parse ''v24.1.0-rc.2''), None)"
    by code_simp
  have ok: "\<exists>w. IncPreRelease v = Inr (w, None) \<and>
           phaseOrdinal w = phaseOrdinal v + 1 \<and>
           year w = year v \<and> ordinal w = ordinal v \<and> patch w = patch v \<and>
           phase w = phase v \<and> phaseSubOrdinal w = phaseSubOrdinal v \<and>
           customOrdinal w = customOrdinal v \<and> adhocLabel w = adhocLabel v \<and>
           Format w ''v%X.%Y.%Z-%P.%o'' = Inr (raw w)"
    if r: "reachable v" and p: "IsPrerelease v" "\<not> 0 <s phaseSubOrdinal v" "\<not> 0 <s customOrdinal v"
  proof -
    from valid_prerelease_clean [OF reachable_valid [OF r] p]
    have z: "phaseSubOrdinal v = 0" "customOrdinal v = 0" "adhocLabel v = []" by simp_all
    from IncPreRelease_ok [OF p] z show ?thesis by (simp add: Format_prerelease)
  qed
  have any: "\<exists>w. IncPreRelease v = Inr (w, None) \<and>
           phaseOrdinal w = phaseOrdinal v + 1 \<and>
           year w = year v \<and> ordinal w = ordinal v \<and> patch w = patch v \<and>
           phase w = phase v \<and> phaseSubOrdinal w = 0 \<and> customOrdinal w = 0 \<and>
           adhocLabel w = [] \<and>
           Format w ''v%X.%Y.%Z-%P.%o'' = Inr (raw w)"
    if p: "IsPrerelease v" "\<not> 0 <s phaseSubOrdinal v" "\<not> 0 <s customOrdinal v"
    using IncPreRelease_ok [OF p] by (simp add: Format_prerelease)
  from IncPreRelease_error_iff [of v] any ok ex show ?thesis by blast
qed

theorem IncPreRelease_spec_witness:
  "reachable (fst (Parse ''v24.1.0-beta.3'')) \<and> IsPrerelease (fst (Parse ''v24.1.0-beta.3'')) \<and>
   \<not> 0 <s phaseSubOrdinal (fst (Parse ''v24.1.0-beta.3'')) \<and>
   \<not> 0 <s customOrdinal (fst (Parse ''v24.1.0-beta.3'')) \<and>
   (\<exists>w. IncPreRelease (fst (Parse ''v24.1.0-beta.3'')) = Inr (w, None) \<and>
        phaseOrdinal w = phaseOrdinal (fst (Parse ''v24.1.0-beta.3'')) + 1 \<and>
        adhocLabel w = adhocLabel (fst (Parse ''v24.1.0-beta.3'')) \<and>
        Format w ''v%X.%Y.%Z-%P.%o'' = Inr (raw w)) \<and>
   (\<exists>w e. IncPreRelease (fst (Parse ''v24.1.0'')) = Inr (w, Some e)) \<and>
   (\<exists>w e. IncPreRelease (fst (Parse ''v24.1.0-rc.1-cloudonly.2'')) = Inr (w, Some e))"
proof -
  let ?v = "fst (Parse ''v24.1.0-beta.3'')"
  have r: "reachable ?v" by (rule reachable.parsed)
  have p: "IsPrerelease ?v \<and> \<not> 0 <s phaseSubOrdinal ?v \<and> \<not> 0 <s customOrdinal ?v"
    by code_simp
  have s: "\<not> IsPrerelease (fst (Parse ''v24.1.0''))" by code_simp
  have c: "0 <s phaseSubOrdinal (fst (Parse ''v24.1.0-rc.1-cloudonly.2''))" by code_simp
  from r p s c IncPreRelease_spec [of ?v] IncPreRelease_spec [of "fst (Parse ''v24.1.0'')"]
    IncPreRelease_spec [of "fst (Parse ''v24.1.0-rc.1-cloudonly.2'')"]
  show ?thesis by blast
qed

end
